theory Spec2Isabelle
  imports Complex_Main
begin

section \<open>Configurations and NumPy arithmetic\<close>

text \<open>
  A configuration is a NumPy vector of joint values. Floats are modelled as reals; all
  configurations of one planning problem have the same length (the dimension of the
  robot model), so the element-wise operations pair the components up with \<open>zip\<close>.
\<close>

type_synonym configuration = "real list"

definition vsub :: "configuration \<Rightarrow> configuration \<Rightarrow> configuration" where
  "vsub a b = map2 (-) a b"

text \<open>\<^verbatim>\<open>np.linalg.norm\<close> of a vector: the Euclidean norm.\<close>

definition np_linalg_norm :: "real list \<Rightarrow> real" where
  "np_linalg_norm v = sqrt (sum_list (map (\<lambda>x. x * x) v))"

text \<open>
  NumPy's float division does not raise on a zero divisor: it warns and yields
  \<^verbatim>\<open>nan\<close> or \<^verbatim>\<open>inf\<close>. \<open>None\<close> stands for such a non-finite component.
\<close>

definition np_divide :: "real \<Rightarrow> real \<Rightarrow> real option" where
  "np_divide x y = (if y = 0 then None else Some (x / y))"

text \<open>Adding an increment that may hold non-finite components: \<open>None\<close> when the sum does.\<close>

definition np_add :: "configuration \<Rightarrow> real option list \<Rightarrow> configuration option" where
  "np_add a inc = those (map2 (\<lambda>x i. map_option ((+) x) i) a inc)"

section \<open>Options and oracles\<close>

text \<open>
  \<^verbatim>\<open>RRTPlannerOptions\<close>. \<open>max_rewire_dist\<close> is \<open>None\<close> for \<^verbatim>\<open>np.inf\<close>.
\<close>

record RRTPlannerOptions =
  max_angle_step :: real
  max_connection_dist :: real
  rrt_connect :: bool
  bidirectional_rrt :: bool
  rrt_star :: bool
  max_rewire_dist :: "real option"
  max_planning_time :: real
  goal_biasing_probability :: real

definition default_options :: RRTPlannerOptions where
  "default_options = \<lparr> max_angle_step = 5 / 100, max_connection_dist = 2 / 10,
     rrt_connect = False, bidirectional_rrt = False, rrt_star = False,
     max_rewire_dist = None, max_planning_time = 10, goal_biasing_probability = 0 \<rparr>"

text \<open>
  The functions that \<^verbatim>\<open>rrt.py\<close> imports from \<^verbatim>\<open>core.utils\<close> and \<^verbatim>\<open>planning.utils\<close>
  are parameters of the model. The robot model and the collision model, which the source
  passes to each of them, are part of the oracle.
\<close>

record oracles =
  check_collisions_at_state :: "configuration \<Rightarrow> bool"
  check_collisions_along_path :: "configuration list \<Rightarrow> bool"
  configuration_distance :: "configuration \<Rightarrow> configuration \<Rightarrow> real"
  discretize_joint_space_path :: "configuration \<Rightarrow> configuration \<Rightarrow> real \<Rightarrow> configuration list"

section \<open>Graph\<close>

text \<open>
  Modelled from the spec: \<^verbatim>\<open>planning/graph.py\<close> (\<^verbatim>\<open>Node\<close>, \<^verbatim>\<open>Edge\<close>, \<^verbatim>\<open>Graph\<close>) is
  missing. A node wraps a configuration and holds a parent reference and a cost; nodes
  have identity, so a tree is a store of nodes in insertion order and a node reference is
  an index into the store of its tree (a parent never crosses between the two trees).
\<close>

record node =
  node_q :: configuration
  node_parent :: "nat option"
  node_cost :: real

text \<open>
  Modelled from the spec: an edge is a pair of node references plus a cost equal to the
  configuration distance between them.
\<close>

record edge =
  nodeA :: nat
  nodeB :: nat
  edge_cost :: real

text \<open>
  Modelled from the spec: a graph owns its nodes and its edges. The nodes are kept in the
  order of their insertion, which is the order in which the loops over \<^verbatim>\<open>tree.nodes\<close>
  visit them. \<open>Graph\<close> is the empty graph that \<^verbatim>\<open>reset\<close> creates.
\<close>

record graph =
  nodes :: "node list"
  edges :: "edge list"

definition Graph :: graph where
  "Graph = \<lparr> nodes = [], edges = [] \<rparr>"

text \<open>Modelled from the spec: insertion of a node; its reference is its position.\<close>

definition add_node :: "graph \<Rightarrow> node \<Rightarrow> graph" where
  "add_node g n = g\<lparr> nodes := nodes g @ [n] \<rparr>"

text \<open>Modelled from the spec: insertion of an edge, whose cost is the distance of its ends.\<close>

definition add_edge :: "oracles \<Rightarrow> graph \<Rightarrow> nat \<Rightarrow> nat \<Rightarrow> graph \<times> edge" where
  "add_edge env g a b =
     (let e = \<lparr> nodeA = a, nodeB = b,
                edge_cost = configuration_distance env (node_q (nodes g ! a)) (node_q (nodes g ! b)) \<rparr>
      in (g\<lparr> edges := edges g @ [e] \<rparr>, e))"

text \<open>Modelled from the spec: removal of a specific edge; the end nodes stay.\<close>

definition remove_edge :: "graph \<Rightarrow> edge \<Rightarrow> graph" where
  "remove_edge g e = g\<lparr> edges := remove1 e (edges g) \<rparr>"

text \<open>
  Modelled from the spec: the nearest-neighbour query is a linear scan that returns the
  node whose configuration minimises the distance to the query; ties resolve to the first
  node encountered. An empty graph has no nearest node (\<open>None\<close>).
\<close>

definition nearer :: "oracles \<Rightarrow> node list \<Rightarrow> configuration \<Rightarrow> nat \<Rightarrow> (nat \<times> real) option \<Rightarrow> (nat \<times> real) option" where
  "nearer env ns qx i best =
     (let d = configuration_distance env qx (node_q (ns ! i))
      in case best of
           None \<Rightarrow> Some (i, d)
         | Some (j, dj) \<Rightarrow> if d < dj then Some (i, d) else Some (j, dj))"

definition get_nearest_node :: "oracles \<Rightarrow> graph \<Rightarrow> configuration \<Rightarrow> nat option" where
  "get_nearest_node env g qx =
     map_option fst (fold (nearer env (nodes g) qx) [0..<length (nodes g)] None)"

section \<open>Extend or connect\<close>

text \<open>
  What a call of the planner can end in besides a value: \<open>AttributeError\<close> when a
  nearest-node query returned \<^verbatim>\<open>None\<close> and its \<^verbatim>\<open>.q\<close> is read; \<open>NonFinite\<close> when a
  proposed configuration has a \<^verbatim>\<open>nan\<close> or \<^verbatim>\<open>inf\<close> component, where the model stops
  following the run.
\<close>

datatype error = AttributeError | NonFinite

text \<open>Lines 210-211: the increment of length \<open>max_connection_dist\<close> towards the sample.\<close>

definition q_increment_of :: "RRTPlannerOptions \<Rightarrow> configuration \<Rightarrow> configuration \<Rightarrow> real option list" where
  "q_increment_of opts parent_q q_sample =
     (let q_diff = vsub q_sample parent_q
      in map (\<lambda>d. np_divide (max_connection_dist opts * d) (np_linalg_norm q_diff)) q_diff)"

text \<open>Lines 219-223: the proposed configuration and whether this is the final iteration.\<close>

definition propose :: "oracles \<Rightarrow> RRTPlannerOptions \<Rightarrow> configuration \<Rightarrow> real option list \<Rightarrow> configuration \<Rightarrow> (configuration \<times> bool) option" where
  "propose env opts q_sample q_increment q_cur =
     (if configuration_distance env q_cur q_sample > max_connection_dist opts
      then map_option (\<lambda>q_extend. (q_extend, False)) (np_add q_cur q_increment)
      else Some (q_sample, True))"

text \<open>Lines 226-235: the extension is accepted when the state and the path to it are free.\<close>

definition extension_free :: "oracles \<Rightarrow> RRTPlannerOptions \<Rightarrow> configuration \<Rightarrow> configuration \<Rightarrow> bool" where
  "extension_free env opts q_cur q_extend =
     (let q_extend_in_collision = check_collisions_at_state env q_extend;
          path_to_q_extend = discretize_joint_space_path env q_cur q_extend (max_angle_step opts);
          path_to_q_extend_in_collision = check_collisions_along_path env path_to_q_extend
      in \<not> q_extend_in_collision \<and> \<not> path_to_q_extend_in_collision)"

text \<open>
  The \<^verbatim>\<open>while not terminated\<close> loop of \<^verbatim>\<open>extend_or_connect\<close>. It need not end (with a
  non-positive \<open>max_connection_dist\<close> the loop can propose the same configuration for
  ever), so not returning is the value \<open>None\<close>.
\<close>

partial_function (option) extend_loop ::
  "oracles \<Rightarrow> RRTPlannerOptions \<Rightarrow> configuration \<Rightarrow> real option list \<Rightarrow> configuration \<Rightarrow> configuration option
     \<Rightarrow> (error + configuration option) option" where
  "extend_loop env opts q_sample q_increment q_cur q_out =
     (case propose env opts q_sample q_increment q_cur of
        None \<Rightarrow> Some (Inl NonFinite)
      | Some (q_extend, final) \<Rightarrow>
          if extension_free env opts q_cur q_extend
          then (if final \<or> \<not> rrt_connect opts then Some (Inr (Some q_extend))
                else extend_loop env opts q_sample q_increment q_extend (Some q_extend))
          else Some (Inr q_out))"

definition extend_or_connect ::
  "oracles \<Rightarrow> RRTPlannerOptions \<Rightarrow> configuration \<Rightarrow> configuration \<Rightarrow> (error + configuration option) option" where
  "extend_or_connect env opts parent_q q_sample =
     extend_loop env opts q_sample (q_increment_of opts parent_q q_sample) parent_q None"



section \<open>Node insertion and rewiring\<close>

text \<open>
  The state of the rewiring loop of \<^verbatim>\<open>add_node_to_tree\<close>: the tree, the edge that
  currently joins the new node to its parent, and \<^verbatim>\<open>min_cost\<close>.
\<close>

record rewire_state =
  rw_tree :: graph
  rw_edge :: edge
  rw_min_cost :: real

text \<open>The test \<^verbatim>\<open>new_distance > options.max_rewire_dist\<close>, where the bound may be infinite.\<close>

definition beyond_rewire_dist :: "RRTPlannerOptions \<Rightarrow> real \<Rightarrow> bool" where
  "beyond_rewire_dist opts new_distance =
     (case max_rewire_dist opts of None \<Rightarrow> False | Some r \<Rightarrow> new_distance > r)"

text \<open>Lines 315-319: the new node gets the other node as parent, its cost and a new edge.\<close>

definition rewire_to :: "oracles \<Rightarrow> nat \<Rightarrow> nat \<Rightarrow> real \<Rightarrow> rewire_state \<Rightarrow> rewire_state" where
  "rewire_to env new_node other_node new_cost st =
     (let tree = rw_tree st;
          n = (nodes tree ! new_node)\<lparr> node_parent := Some other_node, node_cost := new_cost \<rparr>;
          tree1 = tree\<lparr> nodes := (nodes tree)[new_node := n] \<rparr>;
          tree2 = remove_edge tree1 (rw_edge st);
          (tree3, e) = add_edge env tree2 other_node new_node
      in \<lparr> rw_tree = tree3, rw_edge = e, rw_min_cost = new_cost \<rparr>)"

text \<open>Lines 298-319: one iteration of \<^verbatim>\<open>for other_node in tree.nodes\<close>.\<close>

definition rewire_step ::
  "oracles \<Rightarrow> RRTPlannerOptions \<Rightarrow> configuration \<Rightarrow> nat \<Rightarrow> nat \<Rightarrow> nat \<Rightarrow> rewire_state \<Rightarrow> rewire_state" where
  "rewire_step env opts q_new parent_node new_node other_node st =
     (if other_node = new_node \<or> other_node = parent_node then st
      else
        let other = nodes (rw_tree st) ! other_node;
            new_distance = configuration_distance env (node_q other) q_new
        in if beyond_rewire_dist opts new_distance then st
           else
             let new_cost = node_cost other + new_distance
             in if new_cost < rw_min_cost st
                then
                  let new_path = discretize_joint_space_path env q_new (node_q other) (max_angle_step opts)
                  in if \<not> check_collisions_along_path env new_path
                     then rewire_to env new_node other_node new_cost st
                     else st
                else st)"

text \<open>Lines 290-293: the new node, its edge and its cost, before any rewiring.\<close>

definition insert_node :: "oracles \<Rightarrow> graph \<Rightarrow> configuration \<Rightarrow> nat \<Rightarrow> rewire_state" where
  "insert_node env tree q_new parent_node =
     (let new_node = length (nodes tree);
          tree1 = add_node tree \<lparr> node_q = q_new, node_parent = Some parent_node, node_cost = 0 \<rparr>;
          (tree2, e) = add_edge env tree1 parent_node new_node;
          n = (nodes tree2 ! new_node)\<lparr> node_cost := node_cost (nodes tree2 ! parent_node) + edge_cost e \<rparr>;
          tree3 = tree2\<lparr> nodes := (nodes tree2)[new_node := n] \<rparr>
      in \<lparr> rw_tree = tree3, rw_edge = e, rw_min_cost = node_cost n \<rparr>)"

text \<open>
  The state of the loop \<^verbatim>\<open>for other_node in tree.nodes\<close> after its first \<open>k\<close>
  iterations. The loop visits the nodes of the tree in the order of the store.
\<close>

definition rewire_state_after ::
  "oracles \<Rightarrow> RRTPlannerOptions \<Rightarrow> graph \<Rightarrow> configuration \<Rightarrow> nat \<Rightarrow> nat \<Rightarrow> rewire_state" where
  "rewire_state_after env opts tree q_new parent_node k =
     fold (rewire_step env opts q_new parent_node (length (nodes tree))) [0..<k]
       (insert_node env tree q_new parent_node)"

text \<open>
  \<^verbatim>\<open>add_node_to_tree\<close> returns the tree and the reference of the new node. With
  \<open>rrt_star\<close> the loop runs over all the nodes of the tree, the new one included.
\<close>

definition add_node_to_tree ::
  "oracles \<Rightarrow> RRTPlannerOptions \<Rightarrow> graph \<Rightarrow> configuration \<Rightarrow> nat \<Rightarrow> graph \<times> nat" where
  "add_node_to_tree env opts tree q_new parent_node =
     (let new_node = length (nodes tree);
          st = insert_node env tree q_new parent_node
      in if rrt_star opts
         then (rw_tree (rewire_state_after env opts tree q_new parent_node
                          (length (nodes (rw_tree st)))), new_node)
         else (rw_tree st, new_node))"

text \<open>
  The sum of the edge costs along the parent references from a node to the root of its
  tree, an edge cost being the configuration distance from the parent to the child. On a
  cycle of parent references there is no such sum (\<open>None\<close>).
\<close>

partial_function (option) path_cost :: "oracles \<Rightarrow> node list \<Rightarrow> nat \<Rightarrow> real option" where
  "path_cost env ns i =
     (if i < length ns
      then (case node_parent (ns ! i) of
              None \<Rightarrow> Some 0
            | Some p \<Rightarrow>
                Option.bind (path_cost env ns p)
                  (\<lambda>c. Some (c + configuration_distance env (node_q (ns ! p)) (node_q (ns ! i)))))
      else None)"

text \<open>Every node of the tree stores the cost of its path to the root.\<close>

definition costs_consistent :: "oracles \<Rightarrow> graph \<Rightarrow> bool" where
  "costs_consistent env g =
     list_all (\<lambda>i. path_cost env (nodes g) i = Some (node_cost (nodes g ! i))) [0..<length (nodes g)]"

text \<open>
  The new node as it is when its parent is the node \<open>p\<close> of the tree: its cost is the cost
  of \<open>p\<close> plus the distance from \<open>p\<close>.
\<close>

definition new_node_with :: "oracles \<Rightarrow> node list \<Rightarrow> configuration \<Rightarrow> nat \<Rightarrow> node" where
  "new_node_with env ns q_new p =
     \<lparr> node_q = q_new, node_parent = Some p,
       node_cost = node_cost (ns ! p) + configuration_distance env (node_q (ns ! p)) q_new \<rparr>"

text \<open>
  The invariant of the rewiring loop, for a tree whose nodes were \<open>ns\<close> before the
  insertion: the old nodes are as they were, the new node is the last one, and its parent
  \<open>p\<close>, its cost, \<^verbatim>\<open>min_cost\<close> and \<^verbatim>\<open>edge\<close> agree.
\<close>

definition rewire_inv :: "oracles \<Rightarrow> node list \<Rightarrow> configuration \<Rightarrow> nat \<Rightarrow> rewire_state \<Rightarrow> bool" where
  "rewire_inv env ns q_new p st \<longleftrightarrow>
     p < length ns
     \<and> nodes (rw_tree st) = ns @ [new_node_with env ns q_new p]
     \<and> rw_min_cost st = node_cost (new_node_with env ns q_new p)
     \<and> rw_edge st = \<lparr> nodeA = p, nodeB = length ns,
                       edge_cost = configuration_distance env (node_q (ns ! p)) q_new \<rparr>"

text \<open>The test of lines 300-314 for the candidate \<open>c\<close>, when the parent of the new node is \<open>p\<close>.\<close>

definition rewires ::
  "oracles \<Rightarrow> RRTPlannerOptions \<Rightarrow> node list \<Rightarrow> configuration \<Rightarrow> nat \<Rightarrow> nat \<Rightarrow> nat \<Rightarrow> bool" where
  "rewires env opts ns q_new parent_node p c \<longleftrightarrow>
     c \<noteq> length ns \<and> c \<noteq> parent_node
     \<and> \<not> beyond_rewire_dist opts (configuration_distance env (node_q (ns ! c)) q_new)
     \<and> node_cost (ns ! c) + configuration_distance env (node_q (ns ! c)) q_new
          < node_cost (ns ! p) + configuration_distance env (node_q (ns ! p)) q_new
     \<and> \<not> check_collisions_along_path env
            (discretize_joint_space_path env q_new (node_q (ns ! c)) (max_angle_step opts))"

section \<open>Path extraction\<close>

text \<open>
  One \<^verbatim>\<open>while not path_extracted\<close> loop of \<^verbatim>\<open>extract_path_from_trees\<close>: it appends
  the configurations met on the way along the parent references. On a cycle of parent
  references it would not end, which is the value \<open>None\<close>.
\<close>

partial_function (option) walk_parents ::
  "node list \<Rightarrow> nat option \<Rightarrow> configuration list \<Rightarrow> configuration list option" where
  "walk_parents ns cur_node path =
     (case cur_node of
        None \<Rightarrow> Some path
      | Some i \<Rightarrow> walk_parents ns (node_parent (ns ! i)) (path @ [node_q (ns ! i)]))"

text \<open>
  The final node of the start tree refers into the start tree, that of the goal tree into
  the goal tree.
\<close>

definition extract_path_from_trees ::
  "graph \<Rightarrow> graph \<Rightarrow> nat \<Rightarrow> nat \<Rightarrow> configuration list option" where
  "extract_path_from_trees st_tree gl_tree start_tree_final_node goal_tree_final_node =
     (case walk_parents (nodes st_tree) (Some start_tree_final_node) [] of
        None \<Rightarrow> None
      | Some path \<Rightarrow> walk_parents (nodes gl_tree) (Some goal_tree_final_node) (rev path))"

section \<open>The planner\<close>

text \<open>
  What the clock and the sampler give to one iteration of the planning loop: the time
  elapsed since \<^verbatim>\<open>t_start\<close> at the timeout check, the value of \<^verbatim>\<open>np.random.random()\<close>
  and the value of \<^verbatim>\<open>get_random_state\<close>. A run is given the list of these for the
  iterations it can make; when the list ends, the clock has passed the budget.
\<close>

record draw =
  elapsed :: real
  rand :: real
  random_state :: configuration

text \<open>The trees of the planner and the local variables of \<^verbatim>\<open>plan\<close>.\<close>

record plan_state =
  start_tree :: graph
  goal_tree :: graph
  goal_found :: bool
  latest_start_tree_node :: nat
  latest_goal_tree_node :: nat
  start_tree_phase :: bool

text \<open>Lines 140-141: the tree that is grown in this iteration, and the other one.\<close>

definition active_tree :: "plan_state \<Rightarrow> graph" where
  "active_tree st = (if start_tree_phase st then start_tree st else goal_tree st)"

definition other_tree :: "plan_state \<Rightarrow> graph" where
  "other_tree st = (if start_tree_phase st then goal_tree st else start_tree st)"

text \<open>Lines 144-147: the sampled configuration.\<close>

definition q_sample_of ::
  "RRTPlannerOptions \<Rightarrow> configuration \<Rightarrow> configuration \<Rightarrow> plan_state \<Rightarrow> draw \<Rightarrow> configuration" where
  "q_sample_of opts q_start q_goal st d =
     (if rand d < goal_biasing_probability opts
      then (if start_tree_phase st then q_goal else q_start)
      else random_state d)"

text \<open>
  Lines 155-181: the new node is added to the active tree and recorded as its latest
  node; if it connects to the nearest node of the other tree, a node with the
  configuration of that nearest node is added below it and the goal is found.
\<close>

definition bridge ::
  "oracles \<Rightarrow> RRTPlannerOptions \<Rightarrow> plan_state \<Rightarrow> graph \<Rightarrow> nat \<Rightarrow> nat \<Rightarrow> plan_state" where
  "bridge env opts st tree new_node nearest_node_in_other_tree =
     (let other_q = node_q (nodes (other_tree st) ! nearest_node_in_other_tree);
          path_to_other_tree =
            discretize_joint_space_path env (node_q (nodes tree ! new_node)) other_q (max_angle_step opts)
      in if \<not> check_collisions_along_path env path_to_other_tree
         then
           let (tree1, new_node1) = add_node_to_tree env opts tree other_q new_node
           in if start_tree_phase st
              then st\<lparr> start_tree := tree1, latest_start_tree_node := new_node1,
                       latest_goal_tree_node := nearest_node_in_other_tree, goal_found := True \<rparr>
              else st\<lparr> goal_tree := tree1, latest_start_tree_node := nearest_node_in_other_tree,
                       latest_goal_tree_node := new_node1, goal_found := True \<rparr>
         else
           if start_tree_phase st
           then st\<lparr> start_tree := tree, latest_start_tree_node := new_node \<rparr>
           else st\<lparr> goal_tree := tree, latest_goal_tree_node := new_node \<rparr>)"

text \<open>Lines 150-151: the nearest node of the active tree and the extension from it.\<close>

definition iteration_extension ::
  "oracles \<Rightarrow> RRTPlannerOptions \<Rightarrow> plan_state \<Rightarrow> configuration
     \<Rightarrow> (error + nat \<times> configuration option) option" where
  "iteration_extension env opts st q_sample =
     (case get_nearest_node env (active_tree st) q_sample of
        None \<Rightarrow> Some (Inl AttributeError)
      | Some nearest_node \<Rightarrow>
          (case extend_or_connect env opts (node_q (nodes (active_tree st) ! nearest_node)) q_sample of
             None \<Rightarrow> None
           | Some (Inl e) \<Rightarrow> Some (Inl e)
           | Some (Inr q_new) \<Rightarrow> Some (Inr (nearest_node, q_new))))"

text \<open>Lines 139-185: the body of the planning loop after the timeout check.\<close>

definition plan_iteration ::
  "oracles \<Rightarrow> RRTPlannerOptions \<Rightarrow> configuration \<Rightarrow> configuration \<Rightarrow> plan_state \<Rightarrow> draw
     \<Rightarrow> (error + plan_state) option" where
  "plan_iteration env opts q_start q_goal st d =
     (case iteration_extension env opts st (q_sample_of opts q_start q_goal st d) of
        None \<Rightarrow> None
      | Some (Inl e) \<Rightarrow> Some (Inl e)
      | Some (Inr (nearest_node, None)) \<Rightarrow> Some (Inr st)
      | Some (Inr (nearest_node, Some q_new)) \<Rightarrow>
          let (tree1, new_node) = add_node_to_tree env opts (active_tree st) q_new nearest_node
          in (case get_nearest_node env (other_tree st) (node_q (nodes tree1 ! new_node)) of
                None \<Rightarrow> Some (Inl AttributeError)
              | Some nearest_node_in_other_tree \<Rightarrow>
                  let st1 = bridge env opts st tree1 new_node nearest_node_in_other_tree
                  in if bidirectional_rrt opts
                     then Some (Inr (st1\<lparr> start_tree_phase := \<not> start_tree_phase st1 \<rparr>))
                     else Some (Inr st1)))"

text \<open>Lines 133-185: the loop \<^verbatim>\<open>while not goal_found\<close>.\<close>

fun plan_loop ::
  "oracles \<Rightarrow> RRTPlannerOptions \<Rightarrow> configuration \<Rightarrow> configuration \<Rightarrow> plan_state \<Rightarrow> draw list
     \<Rightarrow> (error + plan_state) option" where
  "plan_loop env opts q_start q_goal st [] = Some (Inr st)"
| "plan_loop env opts q_start q_goal st (d # ds) =
     (if goal_found st then Some (Inr st)
      else if elapsed d > max_planning_time opts then Some (Inr st)
      else case plan_iteration env opts q_start q_goal st d of
             None \<Rightarrow> None
           | Some (Inl e) \<Rightarrow> Some (Inl e)
           | Some (Inr st1) \<Rightarrow> plan_loop env opts q_start q_goal st1 ds)"

text \<open>Lines 101-112: the two trees with their root nodes, and the initial local variables.\<close>

definition initial_state :: "configuration \<Rightarrow> configuration \<Rightarrow> plan_state" where
  "initial_state q_start q_goal =
     \<lparr> start_tree = add_node Graph \<lparr> node_q = q_start, node_parent = None, node_cost = 0 \<rparr>,
       goal_tree = add_node Graph \<lparr> node_q = q_goal, node_parent = None, node_cost = 0 \<rparr>,
       goal_found = False, latest_start_tree_node = 0, latest_goal_tree_node = 0,
       start_tree_phase = True \<rparr>"

text \<open>
  \<^verbatim>\<open>plan\<close> returns the final state and the returned value, which is \<open>None\<close> for
  Python's \<^verbatim>\<open>None\<close> and \<open>Some path\<close> for a list. The attribute \<^verbatim>\<open>latest_path\<close> is that
  value too: \<^verbatim>\<open>reset\<close> sets it to \<^verbatim>\<open>None\<close>, and every other return assigns it first.
\<close>

definition plan ::
  "oracles \<Rightarrow> RRTPlannerOptions \<Rightarrow> configuration \<Rightarrow> configuration \<Rightarrow> draw list
     \<Rightarrow> (error + plan_state \<times> configuration list option) option" where
  "plan env opts q_start q_goal draws =
     (let st0 = initial_state q_start q_goal
      in if check_collisions_at_state env q_start then Some (Inr (st0, None))
         else if check_collisions_at_state env q_goal then Some (Inr (st0, None))
         else
           let path_to_goal = discretize_joint_space_path env q_start q_goal (max_angle_step opts);
               st1 = st0\<lparr> goal_found := \<not> check_collisions_along_path env path_to_goal \<rparr>
           in case plan_loop env opts q_start q_goal st1 draws of
                None \<Rightarrow> None
              | Some (Inl e) \<Rightarrow> Some (Inl e)
              | Some (Inr st) \<Rightarrow>
                  if goal_found st
                  then map_option (\<lambda>path. Inr (st, Some path))
                         (extract_path_from_trees (start_tree st) (goal_tree st)
                            (latest_start_tree_node st) (latest_goal_tree_node st))
                  else Some (Inr (st, Some [])))"

section \<open>Invariants of the planning loop\<close>

text \<open>The discretised segment from one configuration to another is free of collision.\<close>

definition path_free :: "oracles \<Rightarrow> RRTPlannerOptions \<Rightarrow> configuration \<Rightarrow> configuration \<Rightarrow> bool" where
  "path_free env opts a b \<longleftrightarrow>
     \<not> check_collisions_along_path env (discretize_joint_space_path env a b (max_angle_step opts))"

text \<open>A segment that is free in one direction at least.\<close>

definition validated :: "oracles \<Rightarrow> RRTPlannerOptions \<Rightarrow> configuration \<Rightarrow> configuration \<Rightarrow> bool" where
  "validated env opts a b \<longleftrightarrow> path_free env opts a b \<or> path_free env opts b a"

text \<open>
  The references met when following the parent references from a node: the list ends at a
  node without parent.
\<close>

fun parent_chain :: "node list \<Rightarrow> nat option \<Rightarrow> nat list \<Rightarrow> bool" where
  "parent_chain ns cur [] \<longleftrightarrow> cur = None"
| "parent_chain ns cur (i # js) \<longleftrightarrow> cur = Some i \<and> parent_chain ns (node_parent (ns ! i)) js"

text \<open>The final nodes of the two trees have the same configuration.\<close>

definition junction :: "plan_state \<Rightarrow> bool" where
  "junction st \<longleftrightarrow>
     node_q (nodes (start_tree st) ! latest_start_tree_node st)
       = node_q (nodes (goal_tree st) ! latest_goal_tree_node st)"

text \<open>Every parent was inserted before its child, and the segment between them is validated.\<close>

definition tree_checked :: "oracles \<Rightarrow> RRTPlannerOptions \<Rightarrow> node list \<Rightarrow> bool" where
  "tree_checked env opts ns \<longleftrightarrow>
     (\<forall>i<length ns. \<forall>p. node_parent (ns ! i) = Some p \<longrightarrow>
        p < i \<and> validated env opts (node_q (ns ! p)) (node_q (ns ! i)))"

text \<open>Both trees are checked and the latest nodes are nodes of their trees.\<close>

definition plan_checked :: "oracles \<Rightarrow> RRTPlannerOptions \<Rightarrow> plan_state \<Rightarrow> bool" where
  "plan_checked env opts st \<longleftrightarrow>
     tree_checked env opts (nodes (start_tree st)) \<and> tree_checked env opts (nodes (goal_tree st))
     \<and> latest_start_tree_node st < length (nodes (start_tree st))
     \<and> latest_goal_tree_node st < length (nodes (goal_tree st))"

text \<open>Both trees of the planner store consistent costs.\<close>

definition plan_costs :: "oracles \<Rightarrow> plan_state \<Rightarrow> bool" where
  "plan_costs env st \<longleftrightarrow>
     costs_consistent env (start_tree st) \<and> costs_consistent env (goal_tree st)"

section \<open>An example environment\<close>

text \<open>
  The concrete inputs below run the planner in an environment whose oracles follow the
  interface of the spec: a state is in collision when a given predicate holds, a path
  when one of its samples is, the distance is the Euclidean one, and the discretiser
  returns evenly spaced samples from the first configuration to the last, both included,
  no farther apart than the step in any joint.
\<close>

definition linspace_path :: "configuration \<Rightarrow> configuration \<Rightarrow> real \<Rightarrow> configuration list" where
  "linspace_path q_from q_to step =
     (let q_diff = vsub q_to q_from;
          n = nat \<lceil>fold max (map abs q_diff) 0 / step\<rceil>
      in if n = 0 then [q_from]
         else map (\<lambda>k. map2 (\<lambda>x d. x + (real k / real n) * d) q_from q_diff) [0..<Suc n])"

definition example_oracles :: "(configuration \<Rightarrow> bool) \<Rightarrow> oracles" where
  "example_oracles coll =
     \<lparr> check_collisions_at_state = coll,
       check_collisions_along_path = list_ex coll,
       configuration_distance = (\<lambda>a b. np_linalg_norm (vsub b a)),
       discretize_joint_space_path = linspace_path \<rparr>"

definition blocked_oracles :: oracles where
  "blocked_oracles = example_oracles (\<lambda>q. q = [1])"

definition open_oracles :: oracles where
  "open_oracles = example_oracles (\<lambda>q. False)"

definition bidirectional_options :: RRTPlannerOptions where
  "bidirectional_options =
     default_options\<lparr> max_angle_step := 1, max_connection_dist := 1, bidirectional_rrt := True \<rparr>"

definition draw_goal :: draw where
  "draw_goal = \<lparr> elapsed = 0, rand = 1 / 2, random_state = [2] \<rparr>"

text \<open>A tree of two nodes, and options with rewiring, for the concrete insertions.\<close>

definition example_tree :: graph where
  "example_tree =
     \<lparr> nodes = [\<lparr> node_q = [0], node_parent = None, node_cost = 0 \<rparr>,
                \<lparr> node_q = [2], node_parent = Some 0, node_cost = 2 \<rparr>],
       edges = [\<lparr> nodeA = 0, nodeB = 1, edge_cost = 2 \<rparr>] \<rparr>"

definition star_options :: RRTPlannerOptions where
  "star_options = default_options\<lparr> max_angle_step := 1, rrt_star := True \<rparr>"

text \<open>A thin wall on a line: the configurations strictly between \<open>[3 / 5]\<close> and \<open>[7 / 10]\<close>.\<close>

definition wall :: "configuration \<Rightarrow> bool" where
  "wall q = (case q of [x] \<Rightarrow> 3 / 5 < x \<and> x < 7 / 10 | _ \<Rightarrow> False)"

definition thin_oracles :: oracles where
  "thin_oracles = example_oracles wall"

text \<open>Options with a step of \<open>1\<close>, checked every \<open>3 / 4\<close>.\<close>

definition extend_options :: RRTPlannerOptions where
  "extend_options = default_options\<lparr> max_angle_step := 3 / 4, max_connection_dist := 1 \<rparr>"

text \<open>The same with \<open>rrt_connect\<close>.\<close>

definition connect_options :: RRTPlannerOptions where
  "connect_options = extend_options\<lparr> rrt_connect := True \<rparr>"

text \<open>The state in which the run with \<open>extend_options\<close> ends.\<close>

definition extend_final :: plan_state where
  "extend_final =
     \<lparr> start_tree =
         \<lparr> nodes = [\<lparr> node_q = [0], node_parent = None, node_cost = 0 \<rparr>,
                    \<lparr> node_q = [1], node_parent = Some 0, node_cost = 1 \<rparr>,
                    \<lparr> node_q = [2], node_parent = Some (Suc 0), node_cost = 2 \<rparr>],
           edges = [\<lparr> nodeA = 0, nodeB = Suc 0, edge_cost = 1 \<rparr>, \<lparr> nodeA = Suc 0, nodeB = 2, edge_cost = 1 \<rparr>] \<rparr>,
       goal_tree = \<lparr> nodes = [\<lparr> node_q = [2], node_parent = None, node_cost = 0 \<rparr>], edges = [] \<rparr>,
       goal_found = True, latest_start_tree_node = 2, latest_goal_tree_node = 0,
       start_tree_phase = True \<rparr>"

text \<open>The state in which the run with \<open>connect_options\<close> ends.\<close>

definition connect_final :: plan_state where
  "connect_final =
     \<lparr> start_tree =
         \<lparr> nodes = [\<lparr> node_q = [0], node_parent = None, node_cost = 0 \<rparr>,
                    \<lparr> node_q = [2], node_parent = Some 0, node_cost = 2 \<rparr>,
                    \<lparr> node_q = [2], node_parent = Some (Suc 0), node_cost = 2 \<rparr>],
           edges = [\<lparr> nodeA = 0, nodeB = Suc 0, edge_cost = 2 \<rparr>, \<lparr> nodeA = Suc 0, nodeB = 2, edge_cost = 0 \<rparr>] \<rparr>,
       goal_tree = \<lparr> nodes = [\<lparr> node_q = [2], node_parent = None, node_cost = 0 \<rparr>], edges = [] \<rparr>,
       goal_found = True, latest_start_tree_node = 2, latest_goal_tree_node = 0,
       start_tree_phase = True \<rparr>"

section \<open>Helper lemmas\<close>

lemma np_linalg_norm_single: "np_linalg_norm [x] = \<bar>x\<bar>"
  by (simp add: np_linalg_norm_def)

lemma initial_state_trees:
  "start_tree (initial_state q_start q_goal) =
     \<lparr> nodes = [\<lparr> node_q = q_start, node_parent = None, node_cost = 0 \<rparr>], edges = [] \<rparr>"
  "goal_tree (initial_state q_start q_goal) =
     \<lparr> nodes = [\<lparr> node_q = q_goal, node_parent = None, node_cost = 0 \<rparr>], edges = [] \<rparr>"
  by (simp_all add: initial_state_def add_node_def Graph_def)

lemma plan_loop_goal_found:
  "goal_found st \<Longrightarrow> plan_loop env opts q_start q_goal st draws = Some (Inr st)"
  by (cases draws) simp_all

lemma fold_nearer_Some:
  "\<exists>j d. fold (nearer env ns qx) js (Some (i, di)) = Some (j, d) \<and> (j = i \<or> j \<in> set js)"
proof (induction js arbitrary: i di)
  case Nil
  then show ?case by simp
next
  case (Cons a js)
  show ?case
  proof (cases "configuration_distance env qx (node_q (ns ! a)) < di")
    case True
    then have "nearer env ns qx a (Some (i, di)) = Some (a, configuration_distance env qx (node_q (ns ! a)))"
      by (simp add: nearer_def)
    with Cons.IH [of a "configuration_distance env qx (node_q (ns ! a))"] show ?thesis
      by auto
  next
    case False
    then have "nearer env ns qx a (Some (i, di)) = Some (i, di)"
      by (simp add: nearer_def)
    with Cons.IH [of i di] show ?thesis
      by auto
  qed
qed

lemma get_nearest_node_Some:
  assumes "nodes g \<noteq> []"
  shows "\<exists>n. get_nearest_node env g qx = Some n \<and> n < length (nodes g)"
proof -
  let ?d0 = "configuration_distance env qx (node_q (nodes g ! 0))"
  from assms have "[0..<length (nodes g)] = 0 # [1..<length (nodes g)]"
    by (simp add: upt_rec)
  then have "fold (nearer env (nodes g) qx) [0..<length (nodes g)] None
    = fold (nearer env (nodes g) qx) [1..<length (nodes g)] (Some (0, ?d0))"
    by (simp add: nearer_def)
  moreover obtain j d
    where "fold (nearer env (nodes g) qx) [1..<length (nodes g)] (Some (0, ?d0)) = Some (j, d)"
      and "j = 0 \<or> j \<in> set [1..<length (nodes g)]"
    using fold_nearer_Some by blast
  ultimately show ?thesis
    using assms by (auto simp: get_nearest_node_def)
qed

lemma get_nearest_node_single:
  "nodes g = [n] \<Longrightarrow> get_nearest_node env g qx = Some 0"
  by (simp add: get_nearest_node_def nearer_def)


lemma bridge_phase:
  "start_tree_phase (bridge env opts st tree new_node nn) = start_tree_phase st"
  by (simp add: bridge_def Let_def split: prod.splits)

lemma plan_iteration_extended:
  assumes "iteration_extension env opts st (q_sample_of opts q_start q_goal st d) = Some (Inr (n, Some q_new))"
    and "nodes (other_tree st) \<noteq> []"
  shows "\<exists>st1. plan_iteration env opts q_start q_goal st d = Some (Inr st1)"
proof -
  obtain tree1 new_node where a: "add_node_to_tree env opts (active_tree st) q_new n = (tree1, new_node)"
    by (cases "add_node_to_tree env opts (active_tree st) q_new n") blast
  obtain nn where "get_nearest_node env (other_tree st) (node_q (nodes tree1 ! new_node)) = Some nn"
    using get_nearest_node_Some [OF assms(2)] by blast
  with assms(1) a show ?thesis
    by (simp add: plan_iteration_def Let_def)
qed

section \<open>Endpoints in collision\<close>

text \<open>
  C1, as stated: when \<open>q_start\<close> or \<open>q_goal\<close> is in collision, \<open>plan\<close> returns an empty
  path. It does not: with the start in collision the returned value is Python's
  \<^verbatim>\<open>None\<close>, not the empty list that a timeout returns.
\<close>

theorem plan_endpoint_collision_not_empty_list:
  "check_collisions_at_state blocked_oracles [1]
   \<and> plan blocked_oracles default_options [1] [0] [] = Some (Inr (initial_state [1] [0], None))
   \<and> plan blocked_oracles default_options [1] [0] [] \<noteq> Some (Inr (initial_state [1] [0], Some []))"
  by (simp add: plan_def blocked_oracles_def example_oracles_def)

text \<open>
  C1, amended: when \<open>q_start\<close> or \<open>q_goal\<close> is in collision, \<open>plan\<close> returns \<^verbatim>\<open>None\<close>
  at once, whatever the clock and the sampler would give, and each tree holds its root
  node only and no edge.
\<close>

theorem plan_endpoint_collision:
  assumes "check_collisions_at_state env q_start \<or> check_collisions_at_state env q_goal"
  shows "\<exists>st. plan env opts q_start q_goal draws = Some (Inr (st, None))
           \<and> start_tree st = \<lparr> nodes = [\<lparr> node_q = q_start, node_parent = None, node_cost = 0 \<rparr>], edges = [] \<rparr>
           \<and> goal_tree st = \<lparr> nodes = [\<lparr> node_q = q_goal, node_parent = None, node_cost = 0 \<rparr>], edges = [] \<rparr>"
proof -
  have "plan env opts q_start q_goal draws = Some (Inr (initial_state q_start q_goal, None))"
    using assms by (auto simp: plan_def Let_def)
  then show ?thesis
    by (simp add: initial_state_trees)
qed

theorem plan_endpoint_collision_witness:
  "(check_collisions_at_state (blocked_oracles) [0]
      \<or> check_collisions_at_state (blocked_oracles) [1])
   \<and> (\<exists>st. plan (blocked_oracles) default_options [0] [1] [] = Some (Inr (st, None))
     \<and> start_tree st = \<lparr> nodes = [\<lparr> node_q = [0], node_parent = None, node_cost = 0 \<rparr>], edges = [] \<rparr>
     \<and> goal_tree st = \<lparr> nodes = [\<lparr> node_q = [1], node_parent = None, node_cost = 0 \<rparr>], edges = [] \<rparr>)"
proof -
  have h: "check_collisions_at_state (blocked_oracles) [0]
     \<or> check_collisions_at_state (blocked_oracles) [1]"
    by (simp add: blocked_oracles_def example_oracles_def)
  show ?thesis
    using h plan_endpoint_collision [OF h, of default_options "[]"] by blast
qed

section \<open>The direct connection\<close>

text \<open>
  C6: when \<open>q_start\<close> and \<open>q_goal\<close> are free and the discretised interpolation between
  them is free, \<open>plan\<close> returns a path that starts with \<open>q_start\<close> and ends with
  \<open>q_goal\<close>, and each tree still holds its root node only.
\<close>

theorem plan_direct_connection:
  assumes "\<not> check_collisions_at_state env q_start"
    and "\<not> check_collisions_at_state env q_goal"
    and "\<not> check_collisions_along_path env
            (discretize_joint_space_path env q_start q_goal (max_angle_step opts))"
  shows "\<exists>st path. plan env opts q_start q_goal draws = Some (Inr (st, Some path))
           \<and> path \<noteq> [] \<and> hd path = q_start \<and> last path = q_goal
           \<and> start_tree st = \<lparr> nodes = [\<lparr> node_q = q_start, node_parent = None, node_cost = 0 \<rparr>], edges = [] \<rparr>
           \<and> goal_tree st = \<lparr> nodes = [\<lparr> node_q = q_goal, node_parent = None, node_cost = 0 \<rparr>], edges = [] \<rparr>"
proof -
  let ?st = "(initial_state q_start q_goal)\<lparr> goal_found := True \<rparr>"
  have walk: "extract_path_from_trees (start_tree ?st) (goal_tree ?st)
                (latest_start_tree_node ?st) (latest_goal_tree_node ?st) = Some [q_start, q_goal]"
    by (simp add: extract_path_from_trees_def initial_state_def add_node_def Graph_def
        walk_parents.simps)
  have "plan env opts q_start q_goal draws = Some (Inr (?st, Some [q_start, q_goal]))"
    using assms walk by (simp add: plan_def Let_def plan_loop_goal_found)
  then show ?thesis
    by (simp add: initial_state_trees)
qed

theorem plan_direct_connection_witness:
  "\<exists>st path. plan (open_oracles) default_options [0] [1] [] = Some (Inr (st, Some path))
     \<and> path \<noteq> [] \<and> hd path = [0] \<and> last path = [1]
     \<and> start_tree st = \<lparr> nodes = [\<lparr> node_q = [0], node_parent = None, node_cost = 0 \<rparr>], edges = [] \<rparr>
     \<and> goal_tree st = \<lparr> nodes = [\<lparr> node_q = [1], node_parent = None, node_cost = 0 \<rparr>], edges = [] \<rparr>"
proof -
  show ?thesis
    by (rule plan_direct_connection) (simp_all add: open_oracles_def example_oracles_def list_ex_iff)
qed

section \<open>Alternation of the trees\<close>

lemma extend_or_connect_blocked:
  "extend_or_connect blocked_oracles bidirectional_options [0] [2] = Some (Inr None)"
  by (simp add: extend_or_connect_def q_increment_of_def vsub_def np_linalg_norm_single np_divide_def
      extend_loop.simps propose_def extension_free_def blocked_oracles_def example_oracles_def
      bidirectional_options_def default_options_def np_add_def)

lemma extend_or_connect_open:
  "extend_or_connect open_oracles bidirectional_options [0] [2] = Some (Inr (Some [1]))"
  by (simp add: extend_or_connect_def q_increment_of_def vsub_def np_linalg_norm_single np_divide_def
      extend_loop.simps propose_def extension_free_def open_oracles_def example_oracles_def
      bidirectional_options_def default_options_def np_add_def list_ex_iff)

lemma q_sample_of_draw_goal:
  "q_sample_of bidirectional_options [0] [2] (initial_state [0] [2]) draw_goal = [2]"
  by (simp add: q_sample_of_def bidirectional_options_def default_options_def draw_goal_def)

lemma active_tree_initial_state:
  "active_tree (initial_state q_start q_goal) =
     \<lparr> nodes = [\<lparr> node_q = q_start, node_parent = None, node_cost = 0 \<rparr>], edges = [] \<rparr>"
  by (simp add: active_tree_def initial_state_def add_node_def Graph_def)

lemma other_tree_initial_state:
  "other_tree (initial_state q_start q_goal) =
     \<lparr> nodes = [\<lparr> node_q = q_goal, node_parent = None, node_cost = 0 \<rparr>], edges = [] \<rparr>"
  by (simp add: other_tree_def initial_state_def add_node_def Graph_def)

lemma iteration_extension_blocked:
  "iteration_extension blocked_oracles bidirectional_options (initial_state [0] [2])
     (q_sample_of bidirectional_options [0] [2] (initial_state [0] [2]) draw_goal) = Some (Inr (0, None))"
  by (simp add: q_sample_of_draw_goal iteration_extension_def active_tree_initial_state
      get_nearest_node_single extend_or_connect_blocked)

lemma iteration_extension_open:
  "iteration_extension open_oracles bidirectional_options (initial_state [0] [2])
     (q_sample_of bidirectional_options [0] [2] (initial_state [0] [2]) draw_goal) = Some (Inr (0, Some [1]))"
  by (simp add: q_sample_of_draw_goal iteration_extension_def active_tree_initial_state
      get_nearest_node_single extend_or_connect_open)

text \<open>
  C2, as stated: with \<open>bidirectional_rrt\<close> the active tree flips on every iteration,
  also when the extension produced nothing. It does not: in an iteration whose first
  step runs into the obstacle, the start tree is still the active one afterwards.
\<close>

theorem plan_iteration_blocked_keeps_phase:
  "bidirectional_rrt bidirectional_options
   \<and> start_tree_phase (initial_state [0] [2])
   \<and> iteration_extension blocked_oracles bidirectional_options (initial_state [0] [2])
       (q_sample_of bidirectional_options [0] [2] (initial_state [0] [2]) draw_goal) = Some (Inr (0, None))
   \<and> map_option (map_sum id start_tree_phase)
       (plan_iteration blocked_oracles bidirectional_options [0] [2] (initial_state [0] [2]) draw_goal)
       = Some (Inr True)"
  by (simp add: plan_iteration_def iteration_extension_blocked)
    (simp add: bidirectional_options_def initial_state_def)

text \<open>
  C2, amended: with \<open>bidirectional_rrt\<close> the active tree flips in exactly those
  iterations whose extend-or-connect produced a configuration; an iteration whose
  extension produced nothing leaves the state, and so the active tree, as it was.
\<close>

theorem plan_iteration_phase:
  assumes "bidirectional_rrt opts"
    and "iteration_extension env opts st (q_sample_of opts q_start q_goal st d)
           = Some (Inr (nearest_node, q_new))"
    and "plan_iteration env opts q_start q_goal st d = Some (Inr st1)"
  shows "start_tree_phase st1 = (if q_new = None then start_tree_phase st else \<not> start_tree_phase st)
         \<and> (q_new = None \<longrightarrow> st1 = st)"
  using assms
  by (auto simp: plan_iteration_def Let_def bridge_phase split: option.splits prod.splits)

theorem plan_iteration_phase_witness:
  "bidirectional_rrt bidirectional_options
   \<and> iteration_extension open_oracles bidirectional_options (initial_state [0] [2])
       (q_sample_of bidirectional_options [0] [2] (initial_state [0] [2]) draw_goal) = Some (Inr (0, Some [1]))
   \<and> (\<exists>st1. plan_iteration open_oracles bidirectional_options [0] [2] (initial_state [0] [2]) draw_goal
              = Some (Inr st1)
         \<and> start_tree_phase (initial_state [0] [2]) \<and> \<not> start_tree_phase st1)"
proof -
  have b: "bidirectional_rrt bidirectional_options"
    by (simp add: bidirectional_options_def)
  have p: "start_tree_phase (initial_state [0] [2])"
    by (simp add: initial_state_def)
  obtain st1 where st1: "plan_iteration open_oracles bidirectional_options [0] [2]
      (initial_state [0] [2]) draw_goal = Some (Inr st1)"
    using plan_iteration_extended [OF iteration_extension_open]
    by (auto simp: other_tree_initial_state)
  from plan_iteration_phase [OF b iteration_extension_open st1] p
  have "\<not> start_tree_phase st1" by simp
  with b p st1 iteration_extension_open show ?thesis by blast
qed

section \<open>The degenerate sample\<close>




section \<open>Insertion and rewiring\<close>

lemma insert_node_inv:
  assumes "p < length (nodes tree)"
  shows "rewire_inv env (nodes tree) q_new p (insert_node env tree q_new p)"
  using assms
  by (simp add: rewire_inv_def insert_node_def add_node_def add_edge_def Let_def nth_append
      new_node_with_def)

lemma insert_node_length:
  "length (nodes (rw_tree (insert_node env tree q_new p))) = Suc (length (nodes tree))"
  by (simp add: insert_node_def add_node_def add_edge_def Let_def)

lemma rewire_to_inv:
  assumes "rewire_inv env ns q_new p st" and "c < length ns"
  shows "rewire_inv env ns q_new c
           (rewire_to env (length ns) c
              (node_cost (ns ! c) + configuration_distance env (node_q (ns ! c)) q_new) st)"
  using assms
  by (simp add: rewire_inv_def rewire_to_def remove_edge_def add_edge_def Let_def nth_append
      new_node_with_def)

lemma rewire_step_eq:
  assumes "rewire_inv env ns q_new p st" and "c \<le> length ns"
  shows "rewire_step env opts q_new parent_node (length ns) c st =
           (if rewires env opts ns q_new parent_node p c
            then rewire_to env (length ns) c
                   (node_cost (ns ! c) + configuration_distance env (node_q (ns ! c)) q_new) st
            else st)"
proof (cases "c = length ns")
  case True
  then show ?thesis by (simp add: rewire_step_def rewires_def)
next
  case False
  with assms have "nodes (rw_tree st) ! c = ns ! c"
    by (simp add: rewire_inv_def nth_append)
  with assms show ?thesis
    by (auto simp: rewire_step_def rewires_def Let_def rewire_inv_def new_node_with_def)
qed

lemma rewire_step_inv:
  assumes "rewire_inv env ns q_new p st" and "c \<le> length ns"
  shows "\<exists>p'. rewire_inv env ns q_new p' (rewire_step env opts q_new parent_node (length ns) c st)"
proof (cases "rewires env opts ns q_new parent_node p c")
  case True
  then have "c < length ns" using assms(2) by (simp add: rewires_def)
  from rewire_to_inv [OF assms(1) this] True show ?thesis
    by (auto simp: rewire_step_eq [OF assms])
next
  case False
  with assms show ?thesis by (auto simp: rewire_step_eq [OF assms])
qed

lemma rewire_state_after_Suc:
  "rewire_state_after env opts tree q_new parent_node (Suc k) =
     rewire_step env opts q_new parent_node (length (nodes tree)) k
       (rewire_state_after env opts tree q_new parent_node k)"
  by (simp add: rewire_state_after_def)

lemma rewire_state_after_inv:
  assumes "parent_node < length (nodes tree)" and "k \<le> Suc (length (nodes tree))"
  shows "\<exists>p. rewire_inv env (nodes tree) q_new p (rewire_state_after env opts tree q_new parent_node k)"
  using assms(2)
proof (induction k)
  case 0
  show ?case
    using insert_node_inv [OF assms(1)] by (auto simp: rewire_state_after_def)
next
  case (Suc k)
  then obtain p
    where "rewire_inv env (nodes tree) q_new p (rewire_state_after env opts tree q_new parent_node k)"
    by auto
  from rewire_step_inv [OF this, of k] Suc.prems show ?case
    by (simp add: rewire_state_after_Suc)
qed

lemma add_node_to_tree_eq:
  "add_node_to_tree env opts tree q_new parent_node =
     (rw_tree (rewire_state_after env opts tree q_new parent_node
         (if rrt_star opts then Suc (length (nodes tree)) else 0)), length (nodes tree))"
  by (simp add: add_node_to_tree_def Let_def insert_node_length) (simp add: rewire_state_after_def)

lemma add_node_to_tree_inv:
  assumes "parent_node < length (nodes tree)"
  shows "\<exists>p. rewire_inv env (nodes tree) q_new p
           \<lparr> rw_tree = fst (add_node_to_tree env opts tree q_new parent_node),
             rw_edge = rw_edge (rewire_state_after env opts tree q_new parent_node
                (if rrt_star opts then Suc (length (nodes tree)) else 0)),
             rw_min_cost = rw_min_cost (rewire_state_after env opts tree q_new parent_node
                (if rrt_star opts then Suc (length (nodes tree)) else 0)) \<rparr>"
  using rewire_state_after_inv [OF assms, of "if rrt_star opts then Suc (length (nodes tree)) else 0" env q_new opts]
  by (auto simp: add_node_to_tree_eq rewire_inv_def)

section \<open>Path costs\<close>

lemma path_cost_append_aux:
  assumes "path_cost env ns i = Some c"
  shows "i < length ns \<and> path_cost env (ns @ xs) i = Some c"
proof (rule path_cost.raw_induct [OF _ assms])
  fix pc env ns i c
  assume IH: "\<And>env ns i c. pc env ns i = Some c \<Longrightarrow> i < length ns \<and> path_cost env (ns @ xs) i = Some c"
    and eq: "(if i < length ns
      then (case node_parent (ns ! i) of
              None \<Rightarrow> Some 0
            | Some p \<Rightarrow>
                Option.bind (pc env ns p)
                  (\<lambda>c. Some (c + configuration_distance env (node_q (ns ! p)) (node_q (ns ! i)))))
      else None) = Some c"
  from eq have i: "i < length ns"
    by (simp split: if_splits)
  show "i < length ns \<and> path_cost env (ns @ xs) i = Some c"
  proof (cases "node_parent (ns ! i)")
    case None
    with eq i show ?thesis
      by (subst path_cost.simps) (simp add: nth_append)
  next
    case (Some p)
    with eq i obtain c' where c': "pc env ns p = Some c'"
      and c: "c = c' + configuration_distance env (node_q (ns ! p)) (node_q (ns ! i))"
      by (auto simp: bind_eq_Some_conv)
    from IH [OF c'] have pp: "path_cost env (ns @ xs) p = Some c'" and "p < length ns"
      by simp_all
    with Some i c show ?thesis
      by (subst path_cost.simps) (simp add: nth_append)
  qed
qed

lemma path_cost_append:
  "path_cost env ns i = Some c \<Longrightarrow> path_cost env (ns @ xs) i = Some c"
  using path_cost_append_aux by blast

lemma path_cost_new_node:
  assumes "path_cost env ns p = Some c"
  shows "path_cost env (ns @ [new_node_with env ns q_new p]) (length ns)
           = Some (c + configuration_distance env (node_q (ns ! p)) q_new)"
proof -
  from assms have "p < length ns"
    using path_cost_append_aux by blast
  with path_cost_append [OF assms, of "[new_node_with env ns q_new p]"] show ?thesis
    by (subst path_cost.simps) (simp add: nth_append new_node_with_def)
qed

lemma costs_consistent_iff:
  "costs_consistent env g \<longleftrightarrow>
     (\<forall>i<length (nodes g). path_cost env (nodes g) i = Some (node_cost (nodes g ! i)))"
  by (auto simp: costs_consistent_def list_all_iff)

lemma costs_consistent_inv:
  assumes "costs_consistent env tree" and "rewire_inv env (nodes tree) q_new p st"
  shows "costs_consistent env (rw_tree st)"
proof -
  let ?ns = "nodes tree"
  from assms(2) have p: "p < length ?ns"
    and ns: "nodes (rw_tree st) = ?ns @ [new_node_with env ?ns q_new p]"
    by (simp_all add: rewire_inv_def)
  from assms(1) p have pc: "path_cost env ?ns p = Some (node_cost (?ns ! p))"
    by (simp add: costs_consistent_iff)
  have "path_cost env (nodes (rw_tree st)) i = Some (node_cost (nodes (rw_tree st) ! i))"
    if "i < length (nodes (rw_tree st))" for i
  proof (cases "i < length ?ns")
    case True
    with assms(1) have "path_cost env ?ns i = Some (node_cost (?ns ! i))"
      by (simp add: costs_consistent_iff)
    from path_cost_append [OF this] True show ?thesis
      by (simp add: ns nth_append)
  next
    case False
    with that have "i = length ?ns" by (simp add: ns)
    with path_cost_new_node [OF pc, of q_new] show ?thesis
      by (simp add: ns new_node_with_def)
  qed
  then show ?thesis
    by (simp add: costs_consistent_iff)
qed

lemma costs_consistent_root:
  assumes "costs_consistent env g" and "i < length (nodes g)" and "node_parent (nodes g ! i) = None"
  shows "node_cost (nodes g ! i) = 0"
proof -
  from assms(1,2) have "path_cost env (nodes g) i = Some (node_cost (nodes g ! i))"
    by (simp add: costs_consistent_iff)
  moreover from assms(2,3) have "path_cost env (nodes g) i = Some 0"
    by (subst path_cost.simps) simp
  ultimately show ?thesis by simp
qed

lemma costs_consistent_initial_state:
  "costs_consistent env (start_tree (initial_state q_start q_goal))"
  "costs_consistent env (goal_tree (initial_state q_start q_goal))"
  by (simp_all add: costs_consistent_def initial_state_trees path_cost.simps)

section \<open>A concrete insertion with rewiring\<close>

lemma open_oracles_free: "\<not> check_collisions_along_path open_oracles p"
  by (simp add: open_oracles_def example_oracles_def list_ex_iff)

lemma open_oracles_distance: "configuration_distance open_oracles [a] [b] = \<bar>b - a\<bar>"
  by (simp add: open_oracles_def example_oracles_def vsub_def np_linalg_norm_single)

lemma insert_node_example:
  "insert_node open_oracles example_tree [1] (Suc 0) =
     \<lparr> rw_tree =
         \<lparr> nodes = [\<lparr> node_q = [0], node_parent = None, node_cost = 0 \<rparr>,
                    \<lparr> node_q = [2], node_parent = Some 0, node_cost = 2 \<rparr>,
                    \<lparr> node_q = [1], node_parent = Some (Suc 0), node_cost = 3 \<rparr>],
           edges = [\<lparr> nodeA = 0, nodeB = 1, edge_cost = 2 \<rparr>, \<lparr> nodeA = 1, nodeB = 2, edge_cost = 1 \<rparr>] \<rparr>,
       rw_edge = \<lparr> nodeA = 1, nodeB = 2, edge_cost = 1 \<rparr>, rw_min_cost = 3 \<rparr>"
  by (simp add: insert_node_def example_tree_def add_node_def add_edge_def open_oracles_distance Let_def)

lemma rewire_state_after_example:
  "rewire_state_after open_oracles star_options example_tree [1] (Suc 0) (Suc 0) =
     \<lparr> rw_tree =
         \<lparr> nodes = [\<lparr> node_q = [0], node_parent = None, node_cost = 0 \<rparr>,
                    \<lparr> node_q = [2], node_parent = Some 0, node_cost = 2 \<rparr>,
                    \<lparr> node_q = [1], node_parent = Some 0, node_cost = 1 \<rparr>],
           edges = [\<lparr> nodeA = 0, nodeB = 1, edge_cost = 2 \<rparr>, \<lparr> nodeA = 0, nodeB = 2, edge_cost = 1 \<rparr>] \<rparr>,
       rw_edge = \<lparr> nodeA = 0, nodeB = 2, edge_cost = 1 \<rparr>, rw_min_cost = 1 \<rparr>"
  apply (simp add: rewire_state_after_def insert_node_example)
  apply (simp add: rewire_step_def example_tree_def open_oracles_distance open_oracles_free
      beyond_rewire_dist_def star_options_def default_options_def rewire_to_def remove_edge_def
      add_edge_def Let_def)
  done

lemma rewire_state_after_example_end:
  "rewire_state_after open_oracles star_options example_tree [1] (Suc 0) (Suc (Suc (Suc 0))) =
     rewire_state_after open_oracles star_options example_tree [1] (Suc 0) (Suc 0)"
  apply (simp only: rewire_state_after_Suc [of _ _ _ _ _ "Suc (Suc 0)"]
      rewire_state_after_Suc [of _ _ _ _ _ "Suc 0"] rewire_state_after_example)
  apply (simp add: rewire_step_def example_tree_def open_oracles_distance open_oracles_free
      beyond_rewire_dist_def star_options_def default_options_def Let_def)
  done

lemma add_node_to_tree_example:
  "add_node_to_tree open_oracles star_options example_tree [1] (Suc 0) =
     (\<lparr> nodes = [\<lparr> node_q = [0], node_parent = None, node_cost = 0 \<rparr>,
                \<lparr> node_q = [2], node_parent = Some 0, node_cost = 2 \<rparr>,
                \<lparr> node_q = [1], node_parent = Some 0, node_cost = 1 \<rparr>],
        edges = [\<lparr> nodeA = 0, nodeB = 1, edge_cost = 2 \<rparr>, \<lparr> nodeA = 0, nodeB = 2, edge_cost = 1 \<rparr>] \<rparr>, 2)"
proof -
  have "rrt_star star_options" by (simp add: star_options_def)
  moreover have "length (nodes example_tree) = Suc (Suc 0)" by (simp add: example_tree_def)
  ultimately show ?thesis
    by (simp add: add_node_to_tree_eq rewire_state_after_example_end rewire_state_after_example)
qed

text \<open>
  C9: rewiring during \<open>add_node_to_tree\<close> changes the new node only. Every node that
  was in the tree before the call, its parent reference and its cost included, is the
  same after each iteration of the rewiring loop and in the returned tree, which has
  exactly one node more.
\<close>

theorem add_node_to_tree_frame:
  assumes "parent_node < length (nodes tree)"
    and "k \<le> Suc (length (nodes tree))"
    and "i < length (nodes tree)"
  shows "nodes (rw_tree (rewire_state_after env opts tree q_new parent_node k)) ! i = nodes tree ! i
         \<and> nodes (fst (add_node_to_tree env opts tree q_new parent_node)) ! i = nodes tree ! i
         \<and> length (nodes (fst (add_node_to_tree env opts tree q_new parent_node)))
             = Suc (length (nodes tree))"
proof -
  obtain p where "rewire_inv env (nodes tree) q_new p (rewire_state_after env opts tree q_new parent_node k)"
    using rewire_state_after_inv [OF assms(1,2)] by blast
  then have a: "nodes (rw_tree (rewire_state_after env opts tree q_new parent_node k)) ! i = nodes tree ! i"
    using assms(3) by (simp add: rewire_inv_def nth_append)
  have "(if rrt_star opts then Suc (length (nodes tree)) else 0) \<le> Suc (length (nodes tree))"
    by simp
  from rewire_state_after_inv [OF assms(1) this]
  obtain p' where "rewire_inv env (nodes tree) q_new p' (rewire_state_after env opts tree q_new parent_node
      (if rrt_star opts then Suc (length (nodes tree)) else 0))"
    by blast
  then have "nodes (fst (add_node_to_tree env opts tree q_new parent_node)) ! i = nodes tree ! i"
    and "length (nodes (fst (add_node_to_tree env opts tree q_new parent_node))) = Suc (length (nodes tree))"
    using assms(3) by (simp_all add: add_node_to_tree_eq rewire_inv_def nth_append)
  with a show ?thesis by simp
qed

theorem add_node_to_tree_frame_witness:
  "Suc 0 < length (nodes example_tree) \<and> 3 \<le> Suc (length (nodes example_tree))
   \<and> Suc 0 < length (nodes example_tree)
   \<and> rrt_star star_options
   \<and> nodes (fst (add_node_to_tree open_oracles star_options example_tree [1] (Suc 0))) ! Suc 0
       = \<lparr> node_q = [2], node_parent = Some 0, node_cost = 2 \<rparr>
   \<and> node_parent (nodes (fst (add_node_to_tree open_oracles star_options example_tree [1] (Suc 0))) ! 2)
       = Some 0"
proof -
  have h: "Suc 0 < length (nodes example_tree)" "3 \<le> Suc (length (nodes example_tree))"
    by (simp_all add: example_tree_def)
  from add_node_to_tree_frame [OF h(1) h(2) h(1), of open_oracles star_options "[1]"]
  have "nodes (fst (add_node_to_tree open_oracles star_options example_tree [1] (Suc 0))) ! Suc 0
          = nodes example_tree ! Suc 0"
    by simp
  moreover have "nodes example_tree ! Suc 0 = \<lparr> node_q = [2], node_parent = Some 0, node_cost = 2 \<rparr>"
    by (simp add: example_tree_def)
  moreover have "rrt_star star_options"
    by (simp add: star_options_def)
  ultimately show ?thesis
    using h by (simp add: add_node_to_tree_example)
qed



section \<open>Walks along the parents\<close>

lemma walk_parents_chain:
  assumes "walk_parents ns cur path = Some r"
  shows "\<exists>js. parent_chain ns cur js \<and> r = path @ map (\<lambda>i. node_q (ns ! i)) js"
proof (rule walk_parents.raw_induct [OF _ assms])
  fix wp ns cur path r
  assume IH: "\<And>ns cur path r. wp ns cur path = Some r \<Longrightarrow>
      \<exists>js. parent_chain ns cur js \<and> r = path @ map (\<lambda>i. node_q (ns ! i)) js"
    and eq: "(case cur of None \<Rightarrow> Some path
        | Some i \<Rightarrow> wp ns (node_parent (ns ! i)) (path @ [node_q (ns ! i)])) = Some r"
  show "\<exists>js. parent_chain ns cur js \<and> r = path @ map (\<lambda>i. node_q (ns ! i)) js"
  proof (cases cur)
    case None
    with eq have "parent_chain ns cur [] \<and> r = path @ map (\<lambda>i. node_q (ns ! i)) []"
      by simp
    then show ?thesis by blast
  next
    case (Some i)
    with eq have "wp ns (node_parent (ns ! i)) (path @ [node_q (ns ! i)]) = Some r"
      by simp
    from IH [OF this] obtain js where "parent_chain ns (node_parent (ns ! i)) js"
      and "r = (path @ [node_q (ns ! i)]) @ map (\<lambda>i. node_q (ns ! i)) js"
      by blast
    with Some have "parent_chain ns cur (i # js) \<and> r = path @ map (\<lambda>i. node_q (ns ! i)) (i # js)"
      by simp
    then show ?thesis by blast
  qed
qed

lemma extract_path_from_trees_chains:
  assumes "extract_path_from_trees st_tree gl_tree s g = Some path"
  shows "\<exists>js ks. parent_chain (nodes st_tree) (Some s) js \<and> parent_chain (nodes gl_tree) (Some g) ks
           \<and> path = rev (map (\<lambda>i. node_q (nodes st_tree ! i)) js) @ map (\<lambda>i. node_q (nodes gl_tree ! i)) ks"
proof -
  from assms obtain p1 where p1: "walk_parents (nodes st_tree) (Some s) [] = Some p1"
    and p2: "walk_parents (nodes gl_tree) (Some g) (rev p1) = Some path"
    by (auto simp: extract_path_from_trees_def split: option.splits)
  from walk_parents_chain [OF p1] walk_parents_chain [OF p2] show ?thesis
    by auto
qed

lemma fold_nearer_in_range:
  assumes "fold (nearer env ns qx) js best = Some (j, d)"
  shows "j \<in> set js \<or> (\<exists>d'. best = Some (j, d'))"
  using assms
proof (induction js arbitrary: best)
  case Nil
  then show ?case by simp
next
  case (Cons a js)
  from Cons.IH [OF Cons.prems [simplified]]
  show ?case
    by (auto simp: nearer_def Let_def split: option.splits if_splits)
qed

lemma get_nearest_node_in_range:
  assumes "get_nearest_node env g qx = Some n"
  shows "n < length (nodes g)"
proof -
  from assms obtain d where "fold (nearer env (nodes g) qx) [0..<length (nodes g)] None = Some (n, d)"
    by (auto simp: get_nearest_node_def)
  from fold_nearer_in_range [OF this] show ?thesis by simp
qed

lemma add_node_to_tree_shape:
  assumes "parent_node < length (nodes tree)"
  shows "\<exists>x. nodes (fst (add_node_to_tree env opts tree q_new parent_node)) = nodes tree @ [x]
           \<and> node_q x = q_new \<and> snd (add_node_to_tree env opts tree q_new parent_node) = length (nodes tree)"
  using add_node_to_tree_inv [OF assms, of env q_new opts]
  by (auto simp: rewire_inv_def new_node_with_def add_node_to_tree_eq)

section \<open>The bridge\<close>

lemma bridge_junction:
  assumes "new_node < length (nodes tree)" and "\<not> goal_found st"
    and "goal_found (bridge env opts st tree new_node nn)"
  shows "junction (bridge env opts st tree new_node nn)"
proof -
  let ?q = "node_q (nodes (other_tree st) ! nn)"
  obtain tree1 n1 where add: "add_node_to_tree env opts tree ?q new_node = (tree1, n1)"
    by (cases "add_node_to_tree env opts tree ?q new_node") blast
  with add_node_to_tree_shape [OF assms(1), of env opts ?q]
  have x: "node_q (nodes tree1 ! n1) = ?q"
    by auto
  from assms(2,3) have free: "\<not> check_collisions_along_path env
      (discretize_joint_space_path env (node_q (nodes tree ! new_node)) ?q (max_angle_step opts))"
    by (auto simp: bridge_def Let_def split: if_splits prod.splits)
  show ?thesis
  proof (cases "start_tree_phase st")
    case True
    with free x add show ?thesis
      by (simp add: bridge_def Let_def junction_def other_tree_def)
  next
    case False
    with free x add show ?thesis
      by (simp add: bridge_def Let_def junction_def other_tree_def)
  qed
qed

lemma iteration_extension_in_range:
  assumes "iteration_extension env opts st q_sample = Some (Inr (n, q_new))"
  shows "n < length (nodes (active_tree st))"
  using assms get_nearest_node_in_range
  by (auto simp: iteration_extension_def split: option.splits sum.splits)

lemma plan_iteration_cases:
  assumes "plan_iteration env opts q_start q_goal st d = Some (Inr st1)"
  obtains (blocked) n where "iteration_extension env opts st (q_sample_of opts q_start q_goal st d) = Some (Inr (n, None))"
      and "st1 = st"
  | (extended) n q_new nn where
      "iteration_extension env opts st (q_sample_of opts q_start q_goal st d) = Some (Inr (n, Some q_new))"
      and "get_nearest_node env (other_tree st)
             (node_q (nodes (fst (add_node_to_tree env opts (active_tree st) q_new n))
                ! snd (add_node_to_tree env opts (active_tree st) q_new n))) = Some nn"
      and "st1 = (bridge env opts st (fst (add_node_to_tree env opts (active_tree st) q_new n))
                   (snd (add_node_to_tree env opts (active_tree st) q_new n)) nn)
                 \<lparr> start_tree_phase := (if bidirectional_rrt opts then \<not> start_tree_phase st else start_tree_phase st) \<rparr>"
  using assms
  by (auto simp: plan_iteration_def Let_def bridge_phase split: option.splits sum.splits prod.splits if_splits)

lemma add_node_to_tree_snd_in_range:
  assumes "n < length (nodes tree)"
  shows "snd (add_node_to_tree env opts tree q_new n)
           < length (nodes (fst (add_node_to_tree env opts tree q_new n)))"
  using add_node_to_tree_shape [OF assms, of env opts q_new] by auto

lemma plan_iteration_junction:
  assumes "plan_iteration env opts q_start q_goal st d = Some (Inr st1)"
    and "\<not> goal_found st" and "goal_found st1"
  shows "junction st1"
  using assms(1)
proof (cases rule: plan_iteration_cases)
  case (blocked n)
  with assms(2,3) show ?thesis by simp
next
  case (extended n q_new nn)
  let ?tree1 = "fst (add_node_to_tree env opts (active_tree st) q_new n)"
  let ?new = "snd (add_node_to_tree env opts (active_tree st) q_new n)"
  have a: "?new < length (nodes ?tree1)"
    using add_node_to_tree_snd_in_range [OF iteration_extension_in_range [OF extended(1)]] .
  from assms(3) extended(3) have b: "goal_found (bridge env opts st ?tree1 ?new nn)"
    by simp
  from bridge_junction [OF a assms(2) b] extended(3) show ?thesis
    by (simp add: junction_def)
qed

lemma plan_loop_junction:
  assumes "plan_loop env opts q_start q_goal st draws = Some (Inr st1)"
    and "goal_found st \<longrightarrow> junction st"
  shows "goal_found st1 \<longrightarrow> junction st1"
  using assms
proof (induction draws arbitrary: st)
  case Nil
  then show ?case by simp
next
  case (Cons d draws)
  show ?case
  proof (cases "goal_found st \<or> elapsed d > max_planning_time opts")
    case True
    with Cons.prems show ?thesis by (auto split: if_splits)
  next
    case False
    with Cons.prems(1) obtain st2 where it: "plan_iteration env opts q_start q_goal st d = Some (Inr st2)"
      and loop: "plan_loop env opts q_start q_goal st2 draws = Some (Inr st1)"
      by (auto split: option.splits sum.splits)
    from False have "\<not> goal_found st" by simp
    from plan_iteration_junction [OF it this] have "goal_found st2 \<longrightarrow> junction st2"
      by blast
    from Cons.IH [OF loop this] show ?thesis .
  qed
qed

lemma parent_chain_Some:
  "parent_chain ns (Some s) js \<Longrightarrow> \<exists>js'. js = s # js'"
  by (cases js) auto

text \<open>
  C10: when \<open>plan\<close> returns a non-empty path although the direct connection is in
  collision, the path holds the bridging configuration twice in a row: it is the
  configuration of the final node of the start tree, which ends the first walk, and of
  the final node of the goal tree, which starts the second.
\<close>

theorem plan_bridge_twice:
  assumes "plan env opts q_start q_goal draws = Some (Inr (st, Some path))"
    and "path \<noteq> []"
    and "check_collisions_along_path env
           (discretize_joint_space_path env q_start q_goal (max_angle_step opts))"
  shows "\<exists>pre post b. path = pre @ [b, b] @ post
           \<and> b = node_q (nodes (start_tree st) ! latest_start_tree_node st)
           \<and> b = node_q (nodes (goal_tree st) ! latest_goal_tree_node st)"
proof -
  let ?st0 = "(initial_state q_start q_goal)\<lparr> goal_found := False \<rparr>"
  from assms have loop: "plan_loop env opts q_start q_goal ?st0 draws = Some (Inr st)"
    and found: "goal_found st"
    and ex: "extract_path_from_trees (start_tree st) (goal_tree st)
               (latest_start_tree_node st) (latest_goal_tree_node st) = Some path"
    by (auto simp: plan_def Let_def split: if_splits option.splits sum.splits)
  have "goal_found ?st0 \<longrightarrow> junction ?st0" by simp
  from plan_loop_junction [OF loop this] found have j: "junction st" by simp
  from extract_path_from_trees_chains [OF ex] obtain js ks
    where js: "parent_chain (nodes (start_tree st)) (Some (latest_start_tree_node st)) js"
      and ks: "parent_chain (nodes (goal_tree st)) (Some (latest_goal_tree_node st)) ks"
      and path: "path = rev (map (\<lambda>i. node_q (nodes (start_tree st) ! i)) js)
                   @ map (\<lambda>i. node_q (nodes (goal_tree st) ! i)) ks"
    by blast
  from parent_chain_Some [OF js] obtain js' where js': "js = latest_start_tree_node st # js'" by blast
  from parent_chain_Some [OF ks] obtain ks' where ks': "ks = latest_goal_tree_node st # ks'" by blast
  let ?b = "node_q (nodes (start_tree st) ! latest_start_tree_node st)"
  have "path = rev (map (\<lambda>i. node_q (nodes (start_tree st) ! i)) js') @ [?b, ?b]
                 @ map (\<lambda>i. node_q (nodes (goal_tree st) ! i)) ks'"
    using path js' ks' j by (simp add: junction_def)
  with j show ?thesis
    unfolding junction_def by blast
qed

section \<open>A concrete run of the planner\<close>

lemma thin_state: "check_collisions_at_state thin_oracles [x] \<longleftrightarrow> 3 / 5 < x \<and> x < 7 / 10"
  by (simp add: thin_oracles_def example_oracles_def wall_def)

lemma thin_distance: "configuration_distance thin_oracles [a] [b] = \<bar>b - a\<bar>"
  by (simp add: thin_oracles_def example_oracles_def vsub_def np_linalg_norm_single)

lemma thin_path:
  "check_collisions_along_path thin_oracles (discretize_joint_space_path thin_oracles a b s)
     \<longleftrightarrow> list_ex wall (linspace_path a b s)"
  by (simp add: thin_oracles_def example_oracles_def)

lemma wall_single: "wall [x] \<longleftrightarrow> 3 / 5 < x \<and> x < 7 / 10"
  by (simp add: wall_def)

lemma linspace_0_2: "linspace_path [0] [2] (3 / 4) = [[0], [2 / 3], [4 / 3], [2]]"
  by (simp add: linspace_path_def vsub_def upt_rec)

lemma linspace_0_1: "linspace_path [0] [1] (3 / 4) = [[0], [1 / 2], [1]]"
  by (simp add: linspace_path_def vsub_def upt_rec)

lemma linspace_1_2: "linspace_path [1] [2] (3 / 4) = [[1], [3 / 2], [2]]"
  by (simp add: linspace_path_def vsub_def upt_rec)

lemma linspace_2_2: "linspace_path [2] [2] (3 / 4) = [[2]]"
  by (simp add: linspace_path_def vsub_def)

lemma linspace_2_0: "linspace_path [2] [0] (3 / 4) = [[2], [4 / 3], [2 / 3], [0]]"
  by (simp add: linspace_path_def vsub_def upt_rec)

lemma extend_options_simps:
  "max_angle_step extend_options = 3 / 4" "max_connection_dist extend_options = 1"
  "\<not> rrt_connect extend_options" "\<not> bidirectional_rrt extend_options" "\<not> rrt_star extend_options"
  "goal_biasing_probability extend_options = 0" "max_planning_time extend_options = 10"
  by (simp_all add: extend_options_def default_options_def)

lemma connect_options_simps:
  "max_angle_step connect_options = 3 / 4" "max_connection_dist connect_options = 1"
  "rrt_connect connect_options" "\<not> bidirectional_rrt connect_options" "\<not> rrt_star connect_options"
  "goal_biasing_probability connect_options = 0" "max_planning_time connect_options = 10"
  by (simp_all add: connect_options_def extend_options_def default_options_def)

lemma extend_or_connect_extend_thin: "extend_or_connect thin_oracles extend_options [0] [2] = Some (Inr (Some [1]))"
  by (simp add: extend_or_connect_def q_increment_of_def vsub_def np_linalg_norm_single np_divide_def
      extend_loop.simps propose_def extension_free_def thin_state thin_distance thin_path wall_single
      extend_options_simps np_add_def linspace_0_1)

lemma extend_or_connect_connect_thin: "extend_or_connect thin_oracles connect_options [0] [2] = Some (Inr (Some [2]))"
  by (simp add: extend_or_connect_def q_increment_of_def vsub_def np_linalg_norm_single np_divide_def
      extend_loop.simps propose_def extension_free_def thin_state thin_distance thin_path wall_single
      connect_options_simps np_add_def linspace_0_1 linspace_1_2)

lemma add_node_to_tree_thin_first: "add_node_to_tree thin_oracles extend_options
     \<lparr> nodes = [\<lparr> node_q = [0], node_parent = None, node_cost = 0 \<rparr>], edges = [] \<rparr> [1] 0
   = (\<lparr> nodes = [\<lparr> node_q = [0], node_parent = None, node_cost = 0 \<rparr>,
                    \<lparr> node_q = [1], node_parent = Some 0, node_cost = 1 \<rparr>],
           edges = [\<lparr> nodeA = 0, nodeB = Suc 0, edge_cost = 1 \<rparr>] \<rparr>, 1)"
  by (simp add: add_node_to_tree_def insert_node_def add_node_def add_edge_def Let_def extend_options_simps thin_distance)

lemma add_node_to_tree_thin_bridge: "add_node_to_tree thin_oracles extend_options
     \<lparr> nodes = [\<lparr> node_q = [0], node_parent = None, node_cost = 0 \<rparr>,
                    \<lparr> node_q = [1], node_parent = Some 0, node_cost = 1 \<rparr>],
           edges = [\<lparr> nodeA = 0, nodeB = Suc 0, edge_cost = 1 \<rparr>] \<rparr> [2] (Suc 0)
   = (\<lparr> nodes = [\<lparr> node_q = [0], node_parent = None, node_cost = 0 \<rparr>,
                    \<lparr> node_q = [1], node_parent = Some 0, node_cost = 1 \<rparr>,
                    \<lparr> node_q = [2], node_parent = Some (Suc 0), node_cost = 2 \<rparr>],
           edges = [\<lparr> nodeA = 0, nodeB = Suc 0, edge_cost = 1 \<rparr>, \<lparr> nodeA = Suc 0, nodeB = 2, edge_cost = 1 \<rparr>] \<rparr>, 2)"
  by (simp add: add_node_to_tree_def insert_node_def add_node_def add_edge_def Let_def extend_options_simps thin_distance)

lemma plan_iteration_extend_thin:
  "plan_iteration thin_oracles extend_options [0] [2] ((initial_state [0] [2])\<lparr> goal_found := False \<rparr>) draw_goal
     = Some (Inr extend_final)"
proof -
  let ?st = "(initial_state [0] [2])\<lparr> goal_found := False \<rparr>"
  have q: "q_sample_of extend_options [0] [2] ?st draw_goal = [2]"
    by (simp add: q_sample_of_def extend_options_simps draw_goal_def)
  have a: "active_tree ?st = \<lparr> nodes = [\<lparr> node_q = [0], node_parent = None, node_cost = 0 \<rparr>], edges = [] \<rparr>"
    and o: "other_tree ?st = \<lparr> nodes = [\<lparr> node_q = [2], node_parent = None, node_cost = 0 \<rparr>], edges = [] \<rparr>"
    by (simp_all add: active_tree_def other_tree_def initial_state_def add_node_def Graph_def)
  have ie: "iteration_extension thin_oracles extend_options ?st [2] = Some (Inr (0, Some [1]))"
    by (simp add: iteration_extension_def a get_nearest_node_single extend_or_connect_extend_thin)
  have br: "bridge thin_oracles extend_options ?st \<lparr> nodes = [\<lparr> node_q = [0], node_parent = None, node_cost = 0 \<rparr>,
                    \<lparr> node_q = [1], node_parent = Some 0, node_cost = 1 \<rparr>],
           edges = [\<lparr> nodeA = 0, nodeB = Suc 0, edge_cost = 1 \<rparr>] \<rparr> (Suc 0) 0 = extend_final"
    by (simp add: bridge_def o thin_path wall_single extend_options_simps linspace_1_2 add_node_to_tree_thin_bridge Let_def)
      (simp add: initial_state_def extend_final_def add_node_def Graph_def)
  show ?thesis
    by (simp add: plan_iteration_def q ie a o add_node_to_tree_thin_first get_nearest_node_single br extend_options_simps)
qed

lemma plan_extend_thin:
  "plan thin_oracles extend_options [0] [2] [draw_goal] = Some (Inr (extend_final, Some [[0], [1], [2], [2]]))"
proof -
  have ex: "extract_path_from_trees (start_tree extend_final) (goal_tree extend_final)
       (latest_start_tree_node extend_final) (latest_goal_tree_node extend_final) = Some [[0], [1], [2], [2]]"
    by (simp add: extract_path_from_trees_def extend_final_def walk_parents.simps)
  have gf: "goal_found extend_final" by (simp add: extend_final_def)
  have el: "elapsed draw_goal = 0"
    by (simp add: draw_goal_def)
  show ?thesis
    by (simp add: plan_def Let_def thin_state thin_path wall_single extend_options_simps linspace_0_2 plan_iteration_extend_thin el gf ex)
qed

lemma add_node_to_tree_no_star:
  "\<not> rrt_star opts \<Longrightarrow>
   add_node_to_tree env opts tree q_new p = (rw_tree (insert_node env tree q_new p), length (nodes tree))"
  by (simp add: add_node_to_tree_eq rewire_state_after_def)

lemma insert_node_thin_root:
  "rw_tree (insert_node thin_oracles
      \<lparr> nodes = [\<lparr> node_q = [0], node_parent = None, node_cost = 0 \<rparr>], edges = [] \<rparr> [b] 0)
   = \<lparr> nodes = [\<lparr> node_q = [0], node_parent = None, node_cost = 0 \<rparr>,
                \<lparr> node_q = [b], node_parent = Some 0, node_cost = \<bar>b\<bar> \<rparr>],
       edges = [\<lparr> nodeA = 0, nodeB = Suc 0, edge_cost = \<bar>b\<bar> \<rparr>] \<rparr>"
  by (simp add: insert_node_def add_node_def add_edge_def Let_def thin_distance)

lemma insert_node_thin_bridge:
  "rw_tree (insert_node thin_oracles
      \<lparr> nodes = [\<lparr> node_q = [0], node_parent = None, node_cost = 0 \<rparr>,
                 \<lparr> node_q = [b], node_parent = Some 0, node_cost = c \<rparr>],
        edges = [\<lparr> nodeA = 0, nodeB = Suc 0, edge_cost = c \<rparr>] \<rparr> [2] (Suc 0))
   = \<lparr> nodes = [\<lparr> node_q = [0], node_parent = None, node_cost = 0 \<rparr>,
                \<lparr> node_q = [b], node_parent = Some 0, node_cost = c \<rparr>,
                \<lparr> node_q = [2], node_parent = Some (Suc 0), node_cost = c + \<bar>2 - b\<bar> \<rparr>],
       edges = [\<lparr> nodeA = 0, nodeB = Suc 0, edge_cost = c \<rparr>,
                \<lparr> nodeA = Suc 0, nodeB = 2, edge_cost = \<bar>2 - b\<bar> \<rparr>] \<rparr>"
  by (simp add: insert_node_def add_node_def add_edge_def Let_def thin_distance)

lemma plan_iteration_connect_thin:
  "plan_iteration thin_oracles connect_options [0] [2] ((initial_state [0] [2])\<lparr> goal_found := False \<rparr>) draw_goal
     = Some (Inr connect_final)"
proof -
  let ?st = "(initial_state [0] [2])\<lparr> goal_found := False \<rparr>"
  have q: "q_sample_of connect_options [0] [2] ?st draw_goal = [2]"
    by (simp add: q_sample_of_def connect_options_simps draw_goal_def)
  have a: "active_tree ?st = \<lparr> nodes = [\<lparr> node_q = [0], node_parent = None, node_cost = 0 \<rparr>], edges = [] \<rparr>"
    and o: "other_tree ?st = \<lparr> nodes = [\<lparr> node_q = [2], node_parent = None, node_cost = 0 \<rparr>], edges = [] \<rparr>"
    by (simp_all add: active_tree_def other_tree_def initial_state_def add_node_def Graph_def)
  have ie: "iteration_extension thin_oracles connect_options ?st [2] = Some (Inr (0, Some [2]))"
    by (simp add: iteration_extension_def a get_nearest_node_single extend_or_connect_connect_thin)
  have br: "bridge thin_oracles connect_options ?st
       \<lparr> nodes = [\<lparr> node_q = [0], node_parent = None, node_cost = 0 \<rparr>,
                  \<lparr> node_q = [2], node_parent = Some 0, node_cost = 2 \<rparr>],
         edges = [\<lparr> nodeA = 0, nodeB = Suc 0, edge_cost = 2 \<rparr>] \<rparr> (Suc 0) 0 = connect_final"
    by (simp add: bridge_def o thin_path wall_single connect_options_simps linspace_2_2 add_node_to_tree_no_star
        insert_node_thin_bridge Let_def)
      (simp add: initial_state_def connect_final_def add_node_def Graph_def)
  show ?thesis
    by (simp add: plan_iteration_def q ie a o add_node_to_tree_no_star insert_node_thin_root
        get_nearest_node_single br connect_options_simps)
qed

lemma thin_path_free:
  "path_free thin_oracles opts a b \<longleftrightarrow> \<not> list_ex wall (linspace_path a b (max_angle_step opts))"
  by (simp add: path_free_def thin_path)

theorem plan_bridge_twice_witness:
  "plan thin_oracles extend_options [0] [2] [draw_goal] = Some (Inr (extend_final, Some [[0], [1], [2], [2]]))
   \<and> [[0], [1], [2], [2]] \<noteq> ([] :: configuration list)
   \<and> check_collisions_along_path thin_oracles
       (discretize_joint_space_path thin_oracles [0] [2] (max_angle_step extend_options))
   \<and> (\<exists>pre post. [[0], [1], [2], [2]] = pre @ [[2], [2]] @ (post :: configuration list))
   \<and> node_q (nodes (start_tree extend_final) ! latest_start_tree_node extend_final) = [2]
   \<and> node_q (nodes (goal_tree extend_final) ! latest_goal_tree_node extend_final) = [2]"
proof -
  have n: "[[0], [1], [2], [2]] \<noteq> ([] :: configuration list)" by simp
  have d: "check_collisions_along_path thin_oracles
       (discretize_joint_space_path thin_oracles [0] [2] (max_angle_step extend_options))"
    by (simp add: thin_path wall_single extend_options_simps linspace_0_2)
  have s: "node_q (nodes (start_tree extend_final) ! latest_start_tree_node extend_final) = [2]"
    by (simp add: extend_final_def)
  from plan_bridge_twice [OF plan_extend_thin n d] obtain pre post b
    where p: "[[0], [1], [2], [2]] = pre @ [b, b] @ post"
      and bs: "b = node_q (nodes (start_tree extend_final) ! latest_start_tree_node extend_final)"
      and bg: "b = node_q (nodes (goal_tree extend_final) ! latest_goal_tree_node extend_final)"
    by blast
  from bs s have b: "b = [2]" by simp
  from p have "\<exists>pre post. [[0], [1], [2], [2]] = pre @ [[2], [2]] @ (post :: configuration list)"
    unfolding b by blast
  moreover from bg have "node_q (nodes (goal_tree extend_final) ! latest_goal_tree_node extend_final) = [2]"
    unfolding b by simp
  ultimately show ?thesis
    using plan_extend_thin n d s by blast
qed

section \<open>Validated edges\<close>

lemma validated_sym: "validated env opts a b \<longleftrightarrow> validated env opts b a"
  by (auto simp: validated_def)

lemma extend_or_connect_one_step:
  assumes "\<not> rrt_connect opts"
    and "extend_or_connect env opts parent_q q_sample = Some (Inr (Some q_new))"
  shows "extension_free env opts parent_q q_new"
  using assms
  by (subst (asm) extend_or_connect_def, subst (asm) extend_loop.simps)
    (auto split: option.splits if_splits)

lemma extension_free_path_free:
  "extension_free env opts a b \<Longrightarrow> path_free env opts a b"
  by (simp add: extension_free_def path_free_def)

lemma rewires_path_free:
  "rewires env opts ns q_new parent_node p c \<Longrightarrow> path_free env opts q_new (node_q (ns ! c))"
  by (simp add: rewires_def path_free_def)

lemma rewire_state_after_checked:
  assumes "parent_node < length (nodes tree)" and "k \<le> Suc (length (nodes tree))"
  shows "\<exists>p. rewire_inv env (nodes tree) q_new p (rewire_state_after env opts tree q_new parent_node k)
           \<and> (p = parent_node \<or> path_free env opts q_new (node_q (nodes tree ! p)))"
  using assms(2)
proof (induction k)
  case 0
  show ?case
    using insert_node_inv [OF assms(1)] by (auto simp: rewire_state_after_def)
next
  case (Suc k)
  let ?ns = "nodes tree"
  from Suc obtain p
    where inv: "rewire_inv env ?ns q_new p (rewire_state_after env opts tree q_new parent_node k)"
      and p: "p = parent_node \<or> path_free env opts q_new (node_q (?ns ! p))"
    by auto
  from Suc.prems have k: "k \<le> length ?ns" by simp
  show ?case
  proof (cases "rewires env opts ?ns q_new parent_node p k")
    case True
    then have "k < length ?ns" using k by (simp add: rewires_def)
    from rewire_to_inv [OF inv this] rewires_path_free [OF True] True show ?thesis
      by (auto simp: rewire_state_after_Suc rewire_step_eq [OF inv k])
  next
    case False
    with inv p show ?thesis
      by (auto simp: rewire_state_after_Suc rewire_step_eq [OF inv k])
  qed
qed

lemma add_node_to_tree_checked:
  assumes "tree_checked env opts (nodes tree)"
    and "parent_node < length (nodes tree)"
    and "validated env opts (node_q (nodes tree ! parent_node)) q_new"
  shows "tree_checked env opts (nodes (fst (add_node_to_tree env opts tree q_new parent_node)))"
proof -
  let ?ns = "nodes tree"
  let ?k = "if rrt_star opts then Suc (length ?ns) else 0"
  have "?k \<le> Suc (length ?ns)" by simp
  from rewire_state_after_checked [OF assms(2) this]
  obtain p where inv: "rewire_inv env ?ns q_new p (rewire_state_after env opts tree q_new parent_node ?k)"
    and p: "p = parent_node \<or> path_free env opts q_new (node_q (?ns ! p))"
    by blast
  from inv have pl: "p < length ?ns"
    and ns: "nodes (fst (add_node_to_tree env opts tree q_new parent_node)) = ?ns @ [new_node_with env ?ns q_new p]"
    by (simp_all add: rewire_inv_def add_node_to_tree_eq)
  from p assms(3) have v: "validated env opts (node_q (?ns ! p)) q_new"
    by (auto simp: validated_def)
  show ?thesis
    unfolding tree_checked_def ns
  proof (intro allI impI)
    fix i p'
    assume i: "i < length (?ns @ [new_node_with env ?ns q_new p])"
      and par: "node_parent ((?ns @ [new_node_with env ?ns q_new p]) ! i) = Some p'"
    show "p' < i \<and> validated env opts (node_q ((?ns @ [new_node_with env ?ns q_new p]) ! p'))
        (node_q ((?ns @ [new_node_with env ?ns q_new p]) ! i))"
    proof (cases "i < length ?ns")
      case True
      with par assms(1) have "p' < i \<and> validated env opts (node_q (?ns ! p')) (node_q (?ns ! i))"
        by (simp add: tree_checked_def nth_append)
      with True show ?thesis by (simp add: nth_append)
    next
      case False
      with i have "i = length ?ns" by simp
      with par pl v show ?thesis
        by (simp add: nth_append new_node_with_def)
    qed
  qed
qed

lemma plan_checked_phase [simp]:
  "plan_checked env opts (st\<lparr> start_tree_phase := b \<rparr>) = plan_checked env opts st"
  by (simp add: plan_checked_def)

lemma plan_checked_active:
  "plan_checked env opts st \<Longrightarrow> tree_checked env opts (nodes (active_tree st))"
  by (simp add: plan_checked_def active_tree_def)

lemma bridge_checked:
  assumes "plan_checked env opts st"
    and "tree_checked env opts (nodes tree)"
    and "new_node < length (nodes tree)"
    and "nn < length (nodes (other_tree st))"
  shows "plan_checked env opts (bridge env opts st tree new_node nn)"
proof (cases "path_free env opts (node_q (nodes tree ! new_node)) (node_q (nodes (other_tree st) ! nn))")
  case False
  with assms show ?thesis
    by (auto simp: bridge_def Let_def path_free_def plan_checked_def)
next
  case True
  let ?q = "node_q (nodes (other_tree st) ! nn)"
  obtain tree1 n1 where add: "add_node_to_tree env opts tree ?q new_node = (tree1, n1)"
    by (cases "add_node_to_tree env opts tree ?q new_node") blast
  from True have "validated env opts (node_q (nodes tree ! new_node)) ?q"
    by (simp add: validated_def)
  from add_node_to_tree_checked [OF assms(2,3) this] add
  have t1: "tree_checked env opts (nodes tree1)" by simp
  from add_node_to_tree_snd_in_range [OF assms(3), of env opts ?q] add
  have n1: "n1 < length (nodes tree1)" by simp
  from True add have "bridge env opts st tree new_node nn =
      (if start_tree_phase st
       then st\<lparr> start_tree := tree1, latest_start_tree_node := n1,
                latest_goal_tree_node := nn, goal_found := True \<rparr>
       else st\<lparr> goal_tree := tree1, latest_start_tree_node := nn,
                latest_goal_tree_node := n1, goal_found := True \<rparr>)"
    by (simp add: bridge_def Let_def path_free_def)
  with assms(1,4) t1 n1 show ?thesis
    by (auto simp: plan_checked_def other_tree_def)
qed

lemma iteration_extension_validated:
  assumes "\<not> rrt_connect opts"
    and "iteration_extension env opts st q_sample = Some (Inr (n, Some q_new))"
  shows "validated env opts (node_q (nodes (active_tree st) ! n)) q_new"
proof -
  from assms(2) have "extend_or_connect env opts (node_q (nodes (active_tree st) ! n)) q_sample
      = Some (Inr (Some q_new))"
    by (auto simp: iteration_extension_def split: option.splits sum.splits)
  from extension_free_path_free [OF extend_or_connect_one_step [OF assms(1) this]]
  show ?thesis by (simp add: validated_def)
qed

lemma plan_iteration_checked:
  assumes "\<not> rrt_connect opts"
    and "plan_iteration env opts q_start q_goal st d = Some (Inr st1)"
    and "plan_checked env opts st"
  shows "plan_checked env opts st1"
  using assms(2)
proof (cases rule: plan_iteration_cases)
  case (blocked n)
  with assms(3) show ?thesis by simp
next
  case (extended n q_new nn)
  let ?tree1 = "fst (add_node_to_tree env opts (active_tree st) q_new n)"
  let ?new = "snd (add_node_to_tree env opts (active_tree st) q_new n)"
  have n: "n < length (nodes (active_tree st))"
    using iteration_extension_in_range [OF extended(1)] .
  have t1: "tree_checked env opts (nodes ?tree1)"
    using add_node_to_tree_checked [OF plan_checked_active [OF assms(3)] n
        iteration_extension_validated [OF assms(1) extended(1)]] .
  have new: "?new < length (nodes ?tree1)"
    using add_node_to_tree_snd_in_range [OF n] .
  have nn: "nn < length (nodes (other_tree st))"
    using get_nearest_node_in_range [OF extended(2)] .
  from bridge_checked [OF assms(3) t1 new nn] extended(3) show ?thesis
    by simp
qed

lemma plan_loop_checked:
  assumes "\<not> rrt_connect opts"
    and "plan_loop env opts q_start q_goal st draws = Some (Inr st1)"
    and "plan_checked env opts st"
  shows "plan_checked env opts st1"
  using assms(2,3)
proof (induction draws arbitrary: st)
  case Nil
  then show ?case by simp
next
  case (Cons d draws)
  show ?case
  proof (cases "goal_found st \<or> elapsed d > max_planning_time opts")
    case True
    with Cons.prems show ?thesis by (auto split: if_splits)
  next
    case False
    with Cons.prems(1) obtain st2 where it: "plan_iteration env opts q_start q_goal st d = Some (Inr st2)"
      and loop: "plan_loop env opts q_start q_goal st2 draws = Some (Inr st1)"
      by (auto split: option.splits sum.splits)
    from Cons.IH [OF loop plan_iteration_checked [OF assms(1) it Cons.prems(2)]] show ?thesis .
  qed
qed

lemma plan_checked_initial_state:
  "plan_checked env opts ((initial_state q_start q_goal)\<lparr> goal_found := b \<rparr>)"
  by (simp add: plan_checked_def tree_checked_def initial_state_def add_node_def Graph_def)

lemma parent_chain_checked:
  assumes "tree_checked env opts ns" and "parent_chain ns (Some s) js" and "s < length ns"
  shows "successively (validated env opts) (map (\<lambda>i. node_q (ns ! i)) js)"
  using assms(2,3)
proof (induction js arbitrary: s)
  case Nil
  then show ?case by simp
next
  case (Cons i js)
  then have i: "i = s" and rest: "parent_chain ns (node_parent (ns ! s)) js" by simp_all
  show ?case
  proof (cases js)
    case Nil
    then show ?thesis by simp
  next
    case (Cons p js')
    with rest have par: "node_parent (ns ! s) = Some p" by simp
    with assms(1) Cons.prems(2) have "p < s" and v: "validated env opts (node_q (ns ! p)) (node_q (ns ! s))"
      by (simp_all add: tree_checked_def)
    with Cons.prems(2) have "p < length ns" by simp
    from Cons.IH [OF rest [unfolded par] this]
    have "successively (validated env opts) (map (\<lambda>i. node_q (ns ! i)) js)" .
    with v i Cons show ?thesis
      by (simp add: validated_sym)
  qed
qed

text \<open>
  C5, as stated: in every non-empty path that \<open>plan\<close> returns, the discretised segment
  between two consecutive configurations is free of collision. It is not with
  \<open>rrt_connect\<close>: here the connect operation goes from \<open>[0]\<close> to \<open>[2]\<close> in two steps that
  are both free, the returned path joins \<open>[0]\<close> to \<open>[2]\<close> directly, and the discretised
  segment between them hits the obstacle, in either direction.
\<close>

theorem plan_connect_unchecked_segment:
  "rrt_connect connect_options
   \<and> plan thin_oracles connect_options [0] [2] [draw_goal]
       = Some (Inr (connect_final, Some [[0], [2], [2], [2]]))
   \<and> check_collisions_along_path thin_oracles
       (discretize_joint_space_path thin_oracles [0] [2] (max_angle_step connect_options))
   \<and> check_collisions_along_path thin_oracles
       (discretize_joint_space_path thin_oracles [2] [0] (max_angle_step connect_options))"
proof -
  have ex: "extract_path_from_trees (start_tree connect_final) (goal_tree connect_final)
       (latest_start_tree_node connect_final) (latest_goal_tree_node connect_final) = Some [[0], [2], [2], [2]]"
    by (simp add: extract_path_from_trees_def connect_final_def walk_parents.simps)
  have gf: "goal_found connect_final" by (simp add: connect_final_def)
  have el: "elapsed draw_goal = 0"
    by (simp add: draw_goal_def)
  have "plan thin_oracles connect_options [0] [2] [draw_goal]
       = Some (Inr (connect_final, Some [[0], [2], [2], [2]]))"
    by (simp add: plan_def Let_def thin_state thin_path wall_single connect_options_simps linspace_0_2
        plan_iteration_connect_thin el gf ex)
  then show ?thesis
    by (simp add: thin_path wall_single connect_options_simps linspace_0_2 linspace_2_0)
qed

lemma plan_returns:
  assumes "plan env opts q_start q_goal draws = Some (Inr (st, Some path))"
  shows "plan_loop env opts q_start q_goal
           ((initial_state q_start q_goal)\<lparr> goal_found := path_free env opts q_start q_goal \<rparr>) draws
         = Some (Inr st)"
    and "if goal_found st
         then extract_path_from_trees (start_tree st) (goal_tree st)
               (latest_start_tree_node st) (latest_goal_tree_node st) = Some path
         else path = []"
  using assms
  by (auto simp: plan_def Let_def path_free_def split: if_splits option.splits sum.splits)

text \<open>
  C5, amended: with \<open>rrt_connect\<close> disabled, two consecutive configurations of a path
  that \<open>plan\<close> returns are equal (the bridging configuration) or joined by a discretised
  segment that is free in the direction in which the planner checked it. So when, on the
  configurations of the path, a free segment is free in the other direction too and the
  segment from a configuration to itself is free, every pair of consecutive
  configurations has a free discretised segment.
\<close>

theorem plan_path_validated:
  assumes "\<not> rrt_connect opts"
    and "plan env opts q_start q_goal draws = Some (Inr (st, Some path))"
  shows "successively (\<lambda>a b. a = b \<or> path_free env opts a b \<or> path_free env opts b a) path
         \<and> ((\<forall>a\<in>set path. \<forall>b\<in>set path. path_free env opts a b \<longrightarrow> path_free env opts b a)
              \<and> (\<forall>a\<in>set path. path_free env opts a a)
            \<longrightarrow> successively (path_free env opts) path)"
proof -
  let ?R = "\<lambda>a b. a = b \<or> path_free env opts a b \<or> path_free env opts b a"
  let ?st0 = "(initial_state q_start q_goal)\<lparr> goal_found := path_free env opts q_start q_goal \<rparr>"
  from assms(2) have loop: "plan_loop env opts q_start q_goal ?st0 draws = Some (Inr st)"
    and ex: "if goal_found st
         then extract_path_from_trees (start_tree st) (goal_tree st)
               (latest_start_tree_node st) (latest_goal_tree_node st) = Some path
         else path = []"
    by (rule plan_returns)+
  have checked: "plan_checked env opts st"
    using plan_loop_checked [OF assms(1) loop plan_checked_initial_state] .
  have A: "successively ?R path"
  proof (cases "goal_found st")
    case False
    with ex show ?thesis by simp
  next
    case True
    with ex have ex: "extract_path_from_trees (start_tree st) (goal_tree st)
        (latest_start_tree_node st) (latest_goal_tree_node st) = Some path"
      by simp
    let ?s = "latest_start_tree_node st" and ?g = "latest_goal_tree_node st"
    let ?qs = "\<lambda>i. node_q (nodes (start_tree st) ! i)" and ?qg = "\<lambda>i. node_q (nodes (goal_tree st) ! i)"
    from extract_path_from_trees_chains [OF ex] obtain js ks
      where js: "parent_chain (nodes (start_tree st)) (Some ?s) js"
        and ks: "parent_chain (nodes (goal_tree st)) (Some ?g) ks"
        and path: "path = rev (map ?qs js) @ map ?qg ks"
      by blast
    from parent_chain_Some [OF js] obtain js' where js': "js = ?s # js'" by blast
    from parent_chain_Some [OF ks] obtain ks' where ks': "ks = ?g # ks'" by blast
    from checked have "successively (validated env opts) (map ?qs js)"
      and "successively (validated env opts) (map ?qg ks)"
      using parent_chain_checked js ks by (simp_all add: plan_checked_def)
    then have sj: "successively ?R (map ?qs js)" and sk: "successively ?R (map ?qg ks)"
      by (auto elim!: successively_mono simp: validated_def)
    from sj have "successively (\<lambda>x y. ?R y x) (map ?qs js)"
      by (rule successively_mono) auto
    then have sr: "successively ?R (rev (map ?qs js))"
      by (simp only: successively_rev)
    have junct: "?R (?qs ?s) (?qg ?g)"
    proof (cases "path_free env opts q_start q_goal")
      case True
      then have "plan_loop env opts q_start q_goal ?st0 draws = Some (Inr ?st0)"
        by (simp add: plan_loop_goal_found)
      with loop have "st = ?st0" by simp
      with True show ?thesis
        by (simp add: initial_state_def add_node_def Graph_def)
    next
      case False
      then have "goal_found ?st0 \<longrightarrow> junction ?st0" by simp
      from plan_loop_junction [OF loop this] \<open>goal_found st\<close> show ?thesis
        by (simp add: junction_def)
    qed
    show ?thesis
      unfolding path
      using sr sk junct js' ks'
      by (simp add: successively_append_iff)
  qed
  have B: "successively (path_free env opts) path"
    if S: "\<forall>a\<in>set path. \<forall>b\<in>set path. path_free env opts a b \<longrightarrow> path_free env opts b a"
      and D: "\<forall>a\<in>set path. path_free env opts a a"
    using A
  proof (rule successively_mono)
    fix x y
    assume "x \<in> set path" "y \<in> set path" "x = y \<or> path_free env opts x y \<or> path_free env opts y x"
    with S D show "path_free env opts x y" by blast
  qed
  from A B show ?thesis by blast
qed

lemma linspace_1_0: "linspace_path [1] [0] (3 / 4) = [[1], [1 / 2], [0]]"
  by (simp add: linspace_path_def vsub_def upt_rec)

lemma linspace_2_1: "linspace_path [2] [1] (3 / 4) = [[2], [3 / 2], [1]]"
  by (simp add: linspace_path_def vsub_def upt_rec)

lemma linspace_same: "linspace_path [a] [a] (3 / 4) = [[a]]"
  by (simp add: linspace_path_def vsub_def)

theorem plan_path_validated_witness:
  "\<not> rrt_connect extend_options
   \<and> plan thin_oracles extend_options [0] [2] [draw_goal] = Some (Inr (extend_final, Some [[0], [1], [2], [2]]))
   \<and> path_free thin_oracles extend_options [0] [0] \<and> path_free thin_oracles extend_options [1] [1]
   \<and> path_free thin_oracles extend_options [2] [2]
   \<and> path_free thin_oracles extend_options [0] [1] \<and> path_free thin_oracles extend_options [1] [0]
   \<and> path_free thin_oracles extend_options [1] [2] \<and> path_free thin_oracles extend_options [2] [1]
   \<and> \<not> path_free thin_oracles extend_options [0] [2] \<and> \<not> path_free thin_oracles extend_options [2] [0]
   \<and> successively (path_free thin_oracles extend_options) [[0], [1], [2], [2]]"
proof -
  have c: "\<not> rrt_connect extend_options"
    by (simp add: extend_options_simps)
  have same: "path_free thin_oracles extend_options [0] [0]" "path_free thin_oracles extend_options [1] [1]"
    "path_free thin_oracles extend_options [2] [2]"
    by (simp_all add: thin_path_free wall_single extend_options_simps linspace_same)
  have free: "path_free thin_oracles extend_options [0] [1]" "path_free thin_oracles extend_options [1] [0]"
    "path_free thin_oracles extend_options [1] [2]" "path_free thin_oracles extend_options [2] [1]"
    by (simp_all add: thin_path_free wall_single extend_options_simps linspace_0_1 linspace_1_0 linspace_1_2
        linspace_2_1)
  have hit: "\<not> path_free thin_oracles extend_options [0] [2]" "\<not> path_free thin_oracles extend_options [2] [0]"
    by (simp_all add: thin_path_free wall_single extend_options_simps linspace_0_2 linspace_2_0)
  have S: "\<forall>a\<in>set [[0], [1], [2], [2]]. \<forall>b\<in>set [[0], [1], [2], [2]].
         path_free thin_oracles extend_options a b \<longrightarrow> path_free thin_oracles extend_options b a"
    using same free hit by simp
  have D: "\<forall>a\<in>set [[0], [1], [2], [2]]. path_free thin_oracles extend_options a a"
    using same by simp
  from plan_path_validated [OF c plan_extend_thin] S D
  have "successively (path_free thin_oracles extend_options) [[0], [1], [2], [2]]"
    by blast
  with c plan_extend_thin same free hit show ?thesis by blast
qed

section \<open>The extension towards the sample\<close>













lemma vsub_self_norm: "np_linalg_norm (vsub a a) = 0"
proof -
  have "sum_list (map (\<lambda>x. x * x) (vsub a a)) = 0"
    by (induction a) (simp_all add: vsub_def)
  then show ?thesis by (simp add: np_linalg_norm_def)
qed





section \<open>Costs along a planning call\<close>

lemma add_node_to_tree_costs:
  assumes "costs_consistent env tree" and "parent_node < length (nodes tree)"
  shows "costs_consistent env (fst (add_node_to_tree env opts tree q_new parent_node))"
proof -
  have "(if rrt_star opts then Suc (length (nodes tree)) else 0) \<le> Suc (length (nodes tree))"
    by simp
  from rewire_state_after_inv [OF assms(2) this]
  obtain p where "rewire_inv env (nodes tree) q_new p (rewire_state_after env opts tree q_new parent_node
      (if rrt_star opts then Suc (length (nodes tree)) else 0))"
    by blast
  from costs_consistent_inv [OF assms(1) this] show ?thesis
    by (simp add: add_node_to_tree_eq)
qed

lemma plan_costs_phase [simp]:
  "plan_costs env (st\<lparr> start_tree_phase := b \<rparr>) = plan_costs env st"
  by (simp add: plan_costs_def)

lemma bridge_costs:
  assumes "plan_costs env st" and "costs_consistent env tree" and "new_node < length (nodes tree)"
  shows "plan_costs env (bridge env opts st tree new_node nn)"
proof -
  let ?q = "node_q (nodes (other_tree st) ! nn)"
  obtain tree1 n1 where add: "add_node_to_tree env opts tree ?q new_node = (tree1, n1)"
    by (cases "add_node_to_tree env opts tree ?q new_node") blast
  from add_node_to_tree_costs [OF assms(2,3), of opts ?q] add
  have "costs_consistent env tree1" by simp
  with assms(1,2) add show ?thesis
    by (auto simp: bridge_def Let_def plan_costs_def)
qed

lemma plan_iteration_costs:
  assumes "plan_iteration env opts q_start q_goal st d = Some (Inr st1)" and "plan_costs env st"
  shows "plan_costs env st1"
  using assms(1)
proof (cases rule: plan_iteration_cases)
  case (blocked n)
  with assms(2) show ?thesis by simp
next
  case (extended n q_new nn)
  have n: "n < length (nodes (active_tree st))"
    using iteration_extension_in_range [OF extended(1)] .
  from assms(2) have "costs_consistent env (active_tree st)"
    by (simp add: plan_costs_def active_tree_def)
  from add_node_to_tree_costs [OF this n]
  have t1: "costs_consistent env (fst (add_node_to_tree env opts (active_tree st) q_new n))" .
  from bridge_costs [OF assms(2) t1 add_node_to_tree_snd_in_range [OF n]] extended(3)
  show ?thesis by simp
qed

lemma plan_loop_costs:
  assumes "plan_loop env opts q_start q_goal st draws = Some (Inr st1)" and "plan_costs env st"
  shows "plan_costs env st1"
  using assms
proof (induction draws arbitrary: st)
  case Nil
  then show ?case by simp
next
  case (Cons d draws)
  show ?case
  proof (cases "goal_found st \<or> elapsed d > max_planning_time opts")
    case True
    with Cons.prems show ?thesis by (auto split: if_splits)
  next
    case False
    with Cons.prems(1) obtain st2 where it: "plan_iteration env opts q_start q_goal st d = Some (Inr st2)"
      and loop: "plan_loop env opts q_start q_goal st2 draws = Some (Inr st1)"
      by (auto split: option.splits sum.splits)
    from Cons.IH [OF loop plan_iteration_costs [OF it Cons.prems(2)]] show ?thesis .
  qed
qed

lemma plan_costs_consistent:
  assumes "plan env opts q_start q_goal draws = Some (Inr (st, ret))"
  shows "costs_consistent env (start_tree st) \<and> costs_consistent env (goal_tree st)"
proof -
  have init: "plan_costs env ((initial_state q_start q_goal)\<lparr> goal_found := b \<rparr>)" for b
    using costs_consistent_initial_state [of env q_start q_goal]
    by (simp add: plan_costs_def initial_state_def)
  from assms consider "st = initial_state q_start q_goal"
    | b where "plan_loop env opts q_start q_goal ((initial_state q_start q_goal)\<lparr> goal_found := b \<rparr>) draws
                = Some (Inr st)"
    by (auto simp: plan_def Let_def split: if_splits option.splits sum.splits)
  then show ?thesis
  proof cases
    case 1
    then show ?thesis by (simp add: costs_consistent_initial_state)
  next
    case 2
    from plan_loop_costs [OF 2 init] show ?thesis by (simp add: plan_costs_def)
  qed
qed

text \<open>
  C4: the trees of a planning call start with a root node of cost 0 and consistent costs.
  When every node of the tree stores the cost of its path to the root, as the sum of the
  configuration distances along its parent references, then so does every node after
  each iteration of the rewiring loop of \<open>add_node_to_tree\<close> and in the returned tree,
  and the nodes without parent in it have cost 0. So the trees that a call of \<open>plan\<close>
  ends with store consistent costs.
\<close>

theorem add_node_to_tree_costs_consistent:
  assumes "costs_consistent env tree"
    and "parent_node < length (nodes tree)"
    and "k \<le> Suc (length (nodes tree))"
  shows "costs_consistent env (start_tree (initial_state q_start q_goal))
         \<and> costs_consistent env (goal_tree (initial_state q_start q_goal))
         \<and> costs_consistent env (rw_tree (rewire_state_after env opts tree q_new parent_node k))
         \<and> costs_consistent env (fst (add_node_to_tree env opts tree q_new parent_node))
         \<and> list_all (\<lambda>n. node_parent n = None \<longrightarrow> node_cost n = 0)
             (nodes (fst (add_node_to_tree env opts tree q_new parent_node)))
         \<and> (\<forall>st ret. plan env opts q_start q_goal draws = Some (Inr (st, ret)) \<longrightarrow>
               costs_consistent env (start_tree st) \<and> costs_consistent env (goal_tree st))"
proof -
  obtain p where "rewire_inv env (nodes tree) q_new p (rewire_state_after env opts tree q_new parent_node k)"
    using rewire_state_after_inv [OF assms(2,3)] by blast
  from costs_consistent_inv [OF assms(1) this]
  have a: "costs_consistent env (rw_tree (rewire_state_after env opts tree q_new parent_node k))" .
  have "(if rrt_star opts then Suc (length (nodes tree)) else 0) \<le> Suc (length (nodes tree))"
    by simp
  from rewire_state_after_inv [OF assms(2) this]
  obtain p' where "rewire_inv env (nodes tree) q_new p' (rewire_state_after env opts tree q_new parent_node
      (if rrt_star opts then Suc (length (nodes tree)) else 0))"
    by blast
  from costs_consistent_inv [OF assms(1) this]
  have b: "costs_consistent env (fst (add_node_to_tree env opts tree q_new parent_node))"
    by (simp add: add_node_to_tree_eq)
  have "list_all (\<lambda>n. node_parent n = None \<longrightarrow> node_cost n = 0)
          (nodes (fst (add_node_to_tree env opts tree q_new parent_node)))"
    using costs_consistent_root [OF b] by (auto simp: list_all_length)
  with a b plan_costs_consistent [of env opts q_start q_goal draws] show ?thesis
    by (simp add: costs_consistent_initial_state)
qed

theorem add_node_to_tree_costs_consistent_witness:
  "costs_consistent open_oracles example_tree
   \<and> Suc 0 < length (nodes example_tree) \<and> Suc 0 \<le> Suc (length (nodes example_tree))
   \<and> rrt_star star_options
   \<and> costs_consistent open_oracles
        \<lparr> nodes = [\<lparr> node_q = [0], node_parent = None, node_cost = 0 \<rparr>,
                   \<lparr> node_q = [2], node_parent = Some 0, node_cost = 2 \<rparr>,
                   \<lparr> node_q = [1], node_parent = Some 0, node_cost = 1 \<rparr>],
          edges = [\<lparr> nodeA = 0, nodeB = 1, edge_cost = 2 \<rparr>, \<lparr> nodeA = 0, nodeB = 2, edge_cost = 1 \<rparr>] \<rparr>"
proof -
  have c: "costs_consistent open_oracles example_tree"
    by (simp add: costs_consistent_def example_tree_def upt_rec path_cost.simps open_oracles_distance)
  have h: "Suc 0 < length (nodes example_tree)" "Suc 0 \<le> Suc (length (nodes example_tree))"
    by (simp_all add: example_tree_def)
  note c h
  moreover have "rrt_star star_options"
    by (simp add: star_options_def)
  ultimately show ?thesis
    using add_node_to_tree_costs_consistent [OF c h, where opts = star_options and q_new = "[1]"]
    by (simp add: add_node_to_tree_example)
qed

end
